theory Spec2Isabelle
  imports Complex_Main "HOL-Library.Code_Target_Numeral"
begin

section \<open>Values shared by the endpoints\<close>

text \<open>
  The three endpoints of the analyzer (holders, traders, interval) page through an upstream
  token-data API and aggregate the records per wallet. Each endpoint exists twice: the
  pro-API version (\<^verbatim>\<open>api/holders.ts\<close>, \<^verbatim>\<open>api/traders.ts\<close>, \<^verbatim>\<open>api/interval.ts\<close>)
  and the public-API version (\<^verbatim>\<open>api/holders.js\<close>, \<^verbatim>\<open>api/traders.js\<close>,
  \<^verbatim>\<open>api/interval.js\<close>); the latter carry the suffix \<open>_public\<close> below.

  JavaScript numbers are doubles. Counts, offsets and block times (unix seconds) are
  naturals and totals are integers: the code compares and increments them, which doubles do
  exactly on the integers below \<open>2^53\<close>. The balance \<^verbatim>\<open>uiAmount\<close> of a holder is
  compared and copied only: it is the rational value of its double. The volumes of the
  traders are quotients and sums, which round: they are doubles (see below). A number
  obtained from \<^verbatim>\<open>parseInt\<close> or \<^verbatim>\<open>parseFloat\<close> may be \<^verbatim>\<open>NaN\<close>: it is an option, with
  \<open>None\<close> for \<^verbatim>\<open>NaN\<close>. A comparison with \<^verbatim>\<open>NaN\<close> is false.
\<close>

definition js_lt :: "'a::ord \<Rightarrow> 'a option \<Rightarrow> bool" where
  "js_lt a b = (case b of None \<Rightarrow> False | Some y \<Rightarrow> a < y)"

definition js_le :: "'a::ord \<Rightarrow> 'a option \<Rightarrow> bool" where
  "js_le a b = (case b of None \<Rightarrow> False | Some y \<Rightarrow> a \<le> y)"

definition js_ge :: "'a::ord \<Rightarrow> 'a option \<Rightarrow> bool" where
  "js_ge a b = (case b of None \<Rightarrow> False | Some y \<Rightarrow> y \<le> a)"

text \<open>
  \<^verbatim>\<open>xs.slice(0, limit)\<close>: a \<^verbatim>\<open>NaN\<close> end is 0, a negative end counts from the end of the
  array, and the end is clamped to the length.
\<close>

definition slice0 :: "int option \<Rightarrow> 'a list \<Rightarrow> 'a list" where
  "slice0 limit xs =
     (case limit of
        None \<Rightarrow> []
      | Some l \<Rightarrow> if l < 0 then take (nat (int (length xs) + l)) xs else take (nat l) xs)"

subsection \<open>Doubles\<close>

text \<open>
  The doubles that a volume can be are not negative: such a double is a finite value, which
  is a rational number, or \<^verbatim>\<open>Infinity\<close>.
\<close>

datatype double = Finite rat | Infinity

text \<open>The number of binary digits of a natural number.\<close>

fun bit_length :: "nat \<Rightarrow> nat" where
  "bit_length n = (if n = 0 then 0 else Suc (bit_length (n div 2)))"

declare bit_length.simps [simp del]

text \<open>For \<open>x > 0\<close>, the integer \<open>e\<close> with \<open>2^e \<le> x < 2^(e+1)\<close>.\<close>

definition floor_log2 :: "rat \<Rightarrow> int" where
  "floor_log2 x =
     (if 1 \<le> x then int (bit_length (nat \<lfloor>x\<rfloor>)) - 1
      else - int (bit_length (nat (\<lceil>1 / x\<rceil> - 1))))"

definition pow2 :: "int \<Rightarrow> rat" where
  "pow2 d = (if 0 \<le> d then 2 ^ nat d else 1 / 2 ^ nat (- d))"

text \<open>The integer nearest to \<open>y\<close>; of two nearest integers, the even one.\<close>

definition round_half_even :: "rat \<Rightarrow> int" where
  "round_half_even y =
     (let f = \<lfloor>y\<rfloor>; d = y - of_int f
      in if d < 1 / 2 then f else if 1 / 2 < d then f + 1 else if even f then f else f + 1)"

text \<open>
  The double that an operation with the exact result \<open>x \<ge> 0\<close> yields (IEEE 754 binary64,
  round to nearest, ties to even). A double has 53 significant bits: around \<open>x\<close> the
  doubles are the multiples of \<open>2^(e - 52)\<close>, where \<open>e\<close> is the binary exponent of \<open>x\<close>,
  and at least \<open>- 1022\<close> (below \<open>2^(- 1022)\<close> the doubles are the multiples of
  \<open>2^(- 1074)\<close>). A result that rounds to \<open>2^1024\<close> or more is \<^verbatim>\<open>Infinity\<close>.
\<close>

definition round_double :: "rat \<Rightarrow> double" where
  "round_double x =
     (if x = 0 then Finite 0
      else let e = max (floor_log2 x) (- 1022);
               ulp = pow2 (e - 52);
               y = of_int (round_half_even (x / ulp)) * ulp
           in if pow2 1024 \<le> y then Infinity else Finite y)"

text \<open>\<^verbatim>\<open>a + b\<close> and \<^verbatim>\<open>a >= b\<close> on these doubles.\<close>

fun double_add :: "double \<Rightarrow> double \<Rightarrow> double" where
  "double_add (Finite a) (Finite b) = round_double (a + b)"
| "double_add (Finite a) Infinity = Infinity"
| "double_add Infinity b = Infinity"

declare double_add.simps [simp del]

fun double_ge :: "double \<Rightarrow> double \<Rightarrow> bool" where
  "double_ge (Finite a) (Finite b) = (b \<le> a)"
| "double_ge (Finite a) Infinity = False"
| "double_ge Infinity b = True"

text \<open>
  \<^verbatim>\<open>Math.abs(changeAmount) / (10**9)\<close>. The amount \<open>c\<close> is the integer that the response
  holds; the code has it as the nearest double, takes the absolute value (which is exact)
  and divides by \<open>10^9\<close> (which is a double).
\<close>

definition scaled_amount :: "int \<Rightarrow> double" where
  "scaled_amount c =
     (case round_double (of_int \<bar>c\<bar>) of
        Infinity \<Rightarrow> Infinity
      | Finite a \<Rightarrow> round_double (a / 10 ^ 9))"

subsection \<open>Objects and maps keyed by the wallet\<close>

text \<open>
  The accumulators are a plain object (\<^verbatim>\<open>walletVolumes\<close>, \<^verbatim>\<open>walletCounts\<close>) or a
  \<^verbatim>\<open>Map\<close> (\<^verbatim>\<open>activeWallets\<close>), keyed by the wallet address. Their own entries are an
  association list in the order of insertion; writing to a key that is present keeps its
  position.
\<close>

fun map_set :: "'k \<Rightarrow> 'v \<Rightarrow> ('k \<times> 'v) list \<Rightarrow> ('k \<times> 'v) list" where
  "map_set k v [] = [(k, v)]"
| "map_set k v ((k', v') # kvs) =
     (if k' = k then (k, v) # kvs else (k', v') # map_set k v kvs)"

text \<open>
  A plain object inherits the members of \<^verbatim>\<open>Object.prototype\<close>: for these keys
  \<^verbatim>\<open>obj[k]\<close> is a function (for \<^verbatim>\<open>__proto__\<close> the prototype itself), which is truthy,
  also when \<^verbatim>\<open>obj\<close> has no entry of its own for \<^verbatim>\<open>k\<close>.
\<close>

definition inherited :: "string \<Rightarrow> bool" where
  "inherited k \<longleftrightarrow>
     k \<in> set [''constructor'', ''__proto__'', ''hasOwnProperty'', ''isPrototypeOf'',
              ''propertyIsEnumerable'', ''toLocaleString'', ''toString'', ''valueOf'',
              ''__defineGetter__'', ''__defineSetter__'', ''__lookupGetter__'',
              ''__lookupSetter__'']"

text \<open>
  \<^verbatim>\<open>Object.entries\<close> lists the keys that are array indices first, in ascending numeric
  order, and then the other keys in the order of insertion. An array index is the decimal
  numeral, without a leading zero, of a number below \<open>2^32 - 1\<close>.
\<close>

definition digit_value :: "char \<Rightarrow> nat option" where
  "digit_value c = map_of (zip ''0123456789'' [0, 1, 2, 3, 4, 5, 6, 7, 8, 9]) c"

fun decimal_value :: "string \<Rightarrow> nat \<Rightarrow> nat option" where
  "decimal_value [] n = Some n"
| "decimal_value (c # cs) n =
     (case digit_value c of None \<Rightarrow> None | Some d \<Rightarrow> decimal_value cs (10 * n + d))"

definition array_index :: "string \<Rightarrow> nat option" where
  "array_index k =
     (if k = [] \<or> (hd k = CHR ''0'' \<and> k \<noteq> ''0'') then None
      else case decimal_value k 0 of
             None \<Rightarrow> None
           | Some n \<Rightarrow> if n < 2 ^ 32 - 1 then Some n else None)"

definition object_entries :: "(string \<times> 'v) list \<Rightarrow> (string \<times> 'v) list" where
  "object_entries kvs =
     sort_key (\<lambda>(k, v). case array_index k of None \<Rightarrow> 0 | Some i \<Rightarrow> i)
       (filter (\<lambda>(k, v). array_index k \<noteq> None) kvs)
     @ filter (\<lambda>(k, v). array_index k = None) kvs"

subsection \<open>Pages, loop states and rows\<close>

definition pageSize :: nat where
  "pageSize = 50"

text \<open>
  An error thrown by the code is \<^verbatim>\<open>new Error(message)\<close>. A request to the upstream API
  either fails (a transport error, or a response with a status outside 2xx, for which axios
  throws) or delivers a page.
\<close>

datatype error = Error string

datatype axios_error = NetworkError | BadStatus nat

text \<open>
  The upstream is the list of the responses to the successive requests: the request number
  \<open>k\<close> (from 0) carries the offset \<open>k * pageSize\<close> and receives the \<open>k\<close>-th element of
  the list. A run that asks for more responses than the list holds has no result
  (\<open>None\<close>). The pro API answers with \<^verbatim>\<open>{data, total}\<close>; the public API answers with the
  array of records itself. Responses are well-formed bodies of these shapes.
\<close>

record 'r Page =
  data :: "'r list"
  total :: int

type_synonym 'r upstream = "(axios_error + 'r Page) list"

type_synonym 'r public_upstream = "(axios_error + 'r list) list"

text \<open>
  Besides the variables of its loop, every loop state has the field \<open>scanned\<close>: the
  records that the \<^verbatim>\<open>for\<close> loop (for the holders, the \<^verbatim>\<open>filter\<close>) has passed so
  far, in order. It is a history variable: it is written, never read, and only serves to
  state what the accumulators hold.
\<close>

record 'r paging =
  offset :: nat
  scanned :: "'r list"

text \<open>The rows of the three results: \<^verbatim>\<open>{wallet, amount}\<close>, \<^verbatim>\<open>{wallet, lastTx}\<close> and
  \<^verbatim>\<open>{wallet, volume, lastTx}\<close>.\<close>

record WalletRow =
  wallet :: string

record HolderRow = WalletRow +
  amount :: rat

record ActiveRow = WalletRow +
  lastTx :: nat

record TraderRow = ActiveRow +
  volume :: double

text \<open>The values kept per wallet: \<^verbatim>\<open>{lastTx}\<close>, \<^verbatim>\<open>{volume, lastTx}\<close> and
  \<^verbatim>\<open>{count, lastTx}\<close>.\<close>

record LastSeen =
  acc_lastTx :: nat

record VolumeEntry = LastSeen +
  acc_volume :: double

record CountEntry = LastSeen +
  acc_count :: nat

text \<open>
  \<^verbatim>\<open>process.env.VITE_SOLSCAN_PRO_API_KEY\<close> is truthy: the variable is set and not empty.
\<close>

definition api_key_configured :: "string option \<Rightarrow> bool" where
  "api_key_configured key = (case key of None \<Rightarrow> False | Some k \<Rightarrow> k \<noteq> [])"

section \<open>Top traders\<close>

text \<open>
  The trader rows in the order of \<^verbatim>\<open>rows.sort((a, b) => b.volume - a.volume)\<close>. The
  difference \<^verbatim>\<open>b.volume - a.volume\<close> is negative, zero or positive as \<^verbatim>\<open>a.volume\<close> is
  greater than, equal to or less than \<^verbatim>\<open>b.volume\<close> (for two infinite volumes it is
  \<^verbatim>\<open>NaN\<close>, which \<^verbatim>\<open>sort\<close> takes as zero), and \<^verbatim>\<open>sort\<close> is stable: it yields the array
  that the stable insertion sort yields.
\<close>

fun insert_by_volume :: "TraderRow \<Rightarrow> TraderRow list \<Rightarrow> TraderRow list" where
  "insert_by_volume r [] = [r]"
| "insert_by_volume r (y # ys) =
     (if double_ge (volume r) (volume y) then r # y # ys else y # insert_by_volume r ys)"

definition sort_by_volume :: "TraderRow list \<Rightarrow> TraderRow list" where
  "sort_by_volume rows = foldr insert_by_volume rows []"

subsection \<open>api/traders.ts\<close>

text \<open>A record of a page, with the fields that the code reads.\<close>

record Transaction =
  owner :: string
  blockTime :: nat
  changeAmount :: int

record 'r traders_state = "'r paging" +
  walletVolumes :: "(string \<times> VolumeEntry) list"
  transactionsProcessed :: nat

text \<open>
  The body of the \<^verbatim>\<open>for\<close> loop: a wallet seen for the first time starts from
  \<^verbatim>\<open>{volume: 0, lastTx: 0}\<close>. When the owner names a member of \<^verbatim>\<open>Object.prototype\<close>,
  \<^verbatim>\<open>walletVolumes[tx.owner]\<close> is that member: no entry is made, the sum is written to
  the member, and the comparison with its \<^verbatim>\<open>lastTx\<close>, which is undefined, is false.
  The object \<^verbatim>\<open>walletVolumes\<close> stays as it is.
\<close>

definition add_transfer ::
  "Transaction \<Rightarrow> (string \<times> VolumeEntry) list \<Rightarrow> (string \<times> VolumeEntry) list" where
  "add_transfer tx wv =
     (if inherited (owner tx) then wv
      else
        let vol = scaled_amount (changeAmount tx);
            e0 = (case map_of wv (owner tx) of
                    None \<Rightarrow> \<lparr>acc_lastTx = 0, acc_volume = Finite 0\<rparr>
                  | Some e \<Rightarrow> e);
            e1 = e0\<lparr>acc_volume := double_add (acc_volume e0) vol\<rparr>;
            e2 = (if blockTime tx > acc_lastTx e1 then e1\<lparr>acc_lastTx := blockTime tx\<rparr> else e1)
        in map_set (owner tx) e2 wv)"

definition maxTransactionsToProcess :: nat where
  "maxTransactionsToProcess = 1000"

text \<open>
  The \<^verbatim>\<open>while\<close> loop, one response per iteration. The first equation is the loop
  that asks for a response when none is left.
\<close>

fun traders_loop ::
  "Transaction traders_state \<Rightarrow> Transaction upstream \<Rightarrow> (error + Transaction traders_state) option" where
  "traders_loop st [] =
     (if transactionsProcessed st < maxTransactionsToProcess then None else Some (Inr st))"
| "traders_loop st (response # rest) =
     (if transactionsProcessed st < maxTransactionsToProcess then
        (case response of
           Inl e \<Rightarrow> Some (Inl (Error ''Failed to fetch transfer data from Solscan.''))
         | Inr page \<Rightarrow>
             if data page = [] then Some (Inr st)
             else
               let st' = st\<lparr>walletVolumes := fold add_transfer (data page) (walletVolumes st),
                            scanned := scanned st @ data page,
                            transactionsProcessed := transactionsProcessed st + length (data page),
                            offset := offset st + pageSize\<rparr>
               in if int (transactionsProcessed st') \<ge> total page then Some (Inr st')
                  else traders_loop st' rest)
      else Some (Inr st))"

text \<open>
  \<^verbatim>\<open>Object.entries(walletVolumes).map(...).sort((a, b) => b.volume - a.volume)\<close>
\<close>

definition sortedTraders :: "(string \<times> VolumeEntry) list \<Rightarrow> TraderRow list" where
  "sortedTraders wv =
     sort_by_volume
       (map (\<lambda>(w, e). \<lparr>wallet = w, lastTx = acc_lastTx e, volume = acc_volume e\<rparr>)
          (object_entries wv))"

definition traders_init :: "Transaction traders_state" where
  "traders_init = \<lparr>offset = 0, scanned = [], walletVolumes = [], transactionsProcessed = 0\<rparr>"

definition fetchTopTraders ::
  "string option \<Rightarrow> int option \<Rightarrow> Transaction upstream \<Rightarrow> (error + TraderRow list) option" where
  "fetchTopTraders key limit ups =
     (if \<not> api_key_configured key then Some (Inl (Error ''Solscan API key is not configured.''))
      else (case traders_loop traders_init ups of
              None \<Rightarrow> None
            | Some (Inl e) \<Rightarrow> Some (Inl e)
            | Some (Inr st) \<Rightarrow> Some (Inr (slice0 limit (sortedTraders (walletVolumes st))))))"

subsection \<open>api/traders.js (public API: transactions are counted)\<close>

text \<open>A transaction of the public API, with the fields that the code reads.\<close>

record PublicTransaction =
  signer :: "string list"
  pt_blockTime :: nat

text \<open>\<^verbatim>\<open>tx.signer[0]\<close>, when it is truthy: the array is not empty and its first element is
  not the empty string.\<close>

definition first_signer :: "PublicTransaction \<Rightarrow> string option" where
  "first_signer tx = (case signer tx of [] \<Rightarrow> None | s # _ \<Rightarrow> if s = [] then None else Some s)"

record 'r traders_public_state = "'r paging" +
  walletCounts :: "(string \<times> CountEntry) list"

text \<open>
  The body of the \<^verbatim>\<open>for\<close> loop. As above, a signer that names a member of
  \<^verbatim>\<open>Object.prototype\<close> leaves \<^verbatim>\<open>walletCounts\<close> as it is.
\<close>

definition count_transaction ::
  "PublicTransaction \<Rightarrow> (string \<times> CountEntry) list \<Rightarrow> (string \<times> CountEntry) list" where
  "count_transaction tx wc =
     (case first_signer tx of
        None \<Rightarrow> wc
      | Some w \<Rightarrow>
          if inherited w then wc
          else
            let e0 = (case map_of wc w of
                        None \<Rightarrow> \<lparr>acc_lastTx = 0, acc_count = 0\<rparr>
                      | Some e \<Rightarrow> e);
                e1 = e0\<lparr>acc_count := acc_count e0 + 1\<rparr>;
                e2 = (if pt_blockTime tx > acc_lastTx e1 then e1\<lparr>acc_lastTx := pt_blockTime tx\<rparr> else e1)
            in map_set w e2 wc)"

definition maxTransactionsToProcess_public :: nat where
  "maxTransactionsToProcess_public = 500"

fun traders_public_loop ::
  "PublicTransaction traders_public_state \<Rightarrow> PublicTransaction public_upstream
     \<Rightarrow> (error + PublicTransaction traders_public_state) option" where
  "traders_public_loop st [] =
     (if offset st < maxTransactionsToProcess_public then None else Some (Inr st))"
| "traders_public_loop st (response # rest) =
     (if offset st < maxTransactionsToProcess_public then
        (case response of
           Inl e \<Rightarrow> Some (Inl (Error ''Failed to fetch transaction data from Solscan.''))
         | Inr txs \<Rightarrow>
             if txs = [] then Some (Inr st)
             else
               let st' = st\<lparr>walletCounts := fold count_transaction txs (walletCounts st),
                            scanned := scanned st @ txs\<rparr>
               in if length txs < pageSize then Some (Inr st')
                  else traders_public_loop (st'\<lparr>offset := offset st' + pageSize\<rparr>) rest)
      else Some (Inr st))"

text \<open>The volume of a row is the count, a natural number, as a double.\<close>

definition sortedTraders_public :: "(string \<times> CountEntry) list \<Rightarrow> TraderRow list" where
  "sortedTraders_public wc =
     sort_by_volume
       (map (\<lambda>(w, e). \<lparr>wallet = w, lastTx = acc_lastTx e, volume = Finite (of_nat (acc_count e))\<rparr>)
          (object_entries wc))"

definition traders_public_init :: "PublicTransaction traders_public_state" where
  "traders_public_init = \<lparr>offset = 0, scanned = [], walletCounts = []\<rparr>"

definition fetchTopTraders_public ::
  "int option \<Rightarrow> PublicTransaction public_upstream \<Rightarrow> (error + TraderRow list) option" where
  "fetchTopTraders_public limit ups =
     (case traders_public_loop traders_public_init ups of
        None \<Rightarrow> None
      | Some (Inl e) \<Rightarrow> Some (Inl e)
      | Some (Inr st) \<Rightarrow> Some (Inr (slice0 limit (sortedTraders_public (walletCounts st)))))"

section \<open>Wallets active in an interval\<close>

record 'r interval_state = "'r paging" +
  activeWallets :: "(string \<times> LastSeen) list"
  continueFetching :: bool

text \<open>
  \<^verbatim>\<open>if (!activeWallets.has(w) || t > activeWallets.get(w).lastTx) activeWallets.set(w, {lastTx: t})\<close>
\<close>

definition note_activity :: "string \<Rightarrow> nat \<Rightarrow> (string \<times> LastSeen) list \<Rightarrow> (string \<times> LastSeen) list" where
  "note_activity w t aw =
     (if (case map_of aw w of None \<Rightarrow> True | Some e \<Rightarrow> t > acc_lastTx e)
      then map_set w \<lparr>acc_lastTx = t\<rparr> aw else aw)"

definition interval_init :: "'r interval_state" where
  "interval_init = \<lparr>offset = 0, scanned = [], activeWallets = [], continueFetching = True\<rparr>"

definition active_rows :: "(string \<times> LastSeen) list \<Rightarrow> ActiveRow list" where
  "active_rows aw = map (\<lambda>(w, e). \<lparr>wallet = w, lastTx = acc_lastTx e\<rparr>) aw"

subsection \<open>api/interval.ts\<close>

text \<open>The \<^verbatim>\<open>for\<close> loop over one page; \<^verbatim>\<open>break\<close> leaves the rest of the page unvisited.\<close>

fun scan_page ::
  "int option \<Rightarrow> int option \<Rightarrow> Transaction list \<Rightarrow> Transaction interval_state \<Rightarrow> Transaction interval_state" where
  "scan_page from to [] st = st"
| "scan_page from to (tx # txs) st =
     (if js_lt (int (blockTime tx)) from then st\<lparr>continueFetching := False\<rparr>
      else scan_page from to txs
             (st\<lparr>scanned := scanned st @ [tx],
                 activeWallets :=
                   (if js_le (int (blockTime tx)) to \<and> js_ge (int (blockTime tx)) from
                    then note_activity (owner tx) (blockTime tx) (activeWallets st)
                    else activeWallets st)\<rparr>))"

fun interval_loop ::
  "int option \<Rightarrow> int option \<Rightarrow> Transaction interval_state \<Rightarrow> Transaction upstream
     \<Rightarrow> (error + Transaction interval_state) option" where
  "interval_loop from to st [] = (if continueFetching st then None else Some (Inr st))"
| "interval_loop from to st (response # rest) =
     (if continueFetching st then
        (case response of
           Inl e \<Rightarrow> Some (Inl (Error ''Failed to fetch transfer data from Solscan.''))
         | Inr page \<Rightarrow>
             if data page = [] then Some (Inr st)
             else
               let st1 = scan_page from to (data page) st;
                   st2 = st1\<lparr>offset := offset st1 + pageSize\<rparr>
               in if int (offset st2) \<ge> total page then Some (Inr st2)
                  else interval_loop from to st2 rest)
      else Some (Inr st))"

definition fetchActiveWallets ::
  "string option \<Rightarrow> int option \<Rightarrow> int option \<Rightarrow> Transaction upstream \<Rightarrow> (error + ActiveRow list) option" where
  "fetchActiveWallets key from to ups =
     (if \<not> api_key_configured key then Some (Inl (Error ''Solscan API key is not configured.''))
      else (case interval_loop from to interval_init ups of
              None \<Rightarrow> None
            | Some (Inl e) \<Rightarrow> Some (Inl e)
            | Some (Inr st) \<Rightarrow> Some (Inr (active_rows (activeWallets st)))))"

subsection \<open>api/interval.js (public API)\<close>

fun scan_page_public ::
  "int option \<Rightarrow> int option \<Rightarrow> PublicTransaction list \<Rightarrow> PublicTransaction interval_state
     \<Rightarrow> PublicTransaction interval_state" where
  "scan_page_public from to [] st = st"
| "scan_page_public from to (tx # txs) st =
     (if js_lt (int (pt_blockTime tx)) from then st\<lparr>continueFetching := False\<rparr>
      else scan_page_public from to txs
             (st\<lparr>scanned := scanned st @ [tx],
                 activeWallets :=
                   (case first_signer tx of
                      None \<Rightarrow> activeWallets st
                    | Some w \<Rightarrow>
                        if js_le (int (pt_blockTime tx)) to
                        then note_activity w (pt_blockTime tx) (activeWallets st)
                        else activeWallets st)\<rparr>))"

fun interval_public_loop ::
  "int option \<Rightarrow> int option \<Rightarrow> PublicTransaction interval_state \<Rightarrow> PublicTransaction public_upstream
     \<Rightarrow> (error + PublicTransaction interval_state) option" where
  "interval_public_loop from to st [] = (if continueFetching st then None else Some (Inr st))"
| "interval_public_loop from to st (response # rest) =
     (if continueFetching st then
        (case response of
           Inl e \<Rightarrow> Some (Inl (Error ''Failed to fetch transaction data from Solscan.''))
         | Inr txs \<Rightarrow>
             if txs = [] then Some (Inr st)
             else
               let st1 = scan_page_public from to txs st
               in if length txs < pageSize then Some (Inr st1)
                  else interval_public_loop from to (st1\<lparr>offset := offset st1 + pageSize\<rparr>) rest)
      else Some (Inr st))"

definition fetchActiveWallets_public ::
  "int option \<Rightarrow> int option \<Rightarrow> PublicTransaction public_upstream \<Rightarrow> (error + ActiveRow list) option" where
  "fetchActiveWallets_public from to ups =
     (case interval_public_loop from to interval_init ups of
        None \<Rightarrow> None
      | Some (Inl e) \<Rightarrow> Some (Inl e)
      | Some (Inr st) \<Rightarrow> Some (Inr (active_rows (activeWallets st))))"

section \<open>Holders\<close>

text \<open>A holder record, with the fields that the code reads, and the loop state: the array
  \<^verbatim>\<open>holders\<close> of the rows collected so far.\<close>

record Holder =
  holder_owner :: string
  uiAmount :: rat

record 'r holders_state = "'r paging" +
  holders :: "HolderRow list"

definition holders_init :: "'r holders_state" where
  "holders_init = \<lparr>offset = 0, scanned = [], holders = []\<rparr>"

text \<open>\<^verbatim>\<open>data.filter(h => h.uiAmount >= minAmount)\<close> and the \<^verbatim>\<open>map\<close> to rows.\<close>

definition filteredHolders :: "rat option \<Rightarrow> Holder list \<Rightarrow> Holder list" where
  "filteredHolders minAmount hs = filter (\<lambda>h. js_ge (uiAmount h) minAmount) hs"

definition holder_rows :: "Holder list \<Rightarrow> HolderRow list" where
  "holder_rows hs = map (\<lambda>h. \<lparr>wallet = holder_owner h, amount = uiAmount h\<rparr>) hs"

subsection \<open>api/holders.ts\<close>

fun holders_loop ::
  "int option \<Rightarrow> rat option \<Rightarrow> Holder holders_state \<Rightarrow> Holder upstream
     \<Rightarrow> (error + Holder holders_state) option" where
  "holders_loop limit minAmount st [] =
     (if js_lt (int (length (holders st))) limit then None else Some (Inr st))"
| "holders_loop limit minAmount st (response # rest) =
     (if js_lt (int (length (holders st))) limit then
        (case response of
           Inl e \<Rightarrow> Some (Inl (Error ''Failed to fetch holder data from Solscan.''))
         | Inr page \<Rightarrow>
             if data page = [] then Some (Inr st)
             else
               let st' = st\<lparr>holders := holders st @ holder_rows (filteredHolders minAmount (data page)),
                            scanned := scanned st @ data page\<rparr>
               in if js_ge (int (length (holders st'))) limit \<or> int (offset st' + pageSize) \<ge> total page
                  then Some (Inr st')
                  else holders_loop limit minAmount (st'\<lparr>offset := offset st' + pageSize\<rparr>) rest)
      else Some (Inr st))"

definition fetchHolders ::
  "string option \<Rightarrow> int option \<Rightarrow> rat option \<Rightarrow> Holder upstream \<Rightarrow> (error + HolderRow list) option" where
  "fetchHolders key limit minAmount ups =
     (if \<not> api_key_configured key then Some (Inl (Error ''Solscan API key is not configured.''))
      else (case holders_loop limit minAmount holders_init ups of
              None \<Rightarrow> None
            | Some (Inl e) \<Rightarrow> Some (Inl e)
            | Some (Inr st) \<Rightarrow> Some (Inr (slice0 limit (holders st)))))"

subsection \<open>api/holders.js (public API)\<close>

fun holders_public_loop ::
  "int option \<Rightarrow> rat option \<Rightarrow> Holder holders_state \<Rightarrow> Holder public_upstream
     \<Rightarrow> (error + Holder holders_state) option" where
  "holders_public_loop limit minAmount st [] =
     (if js_lt (int (length (holders st))) limit then None else Some (Inr st))"
| "holders_public_loop limit minAmount st (response # rest) =
     (if js_lt (int (length (holders st))) limit then
        (case response of
           Inl e \<Rightarrow> Some (Inl (Error ''Failed to fetch holder data from Solscan.''))
         | Inr hs \<Rightarrow>
             if hs = [] then Some (Inr st)
             else
               let st' = st\<lparr>holders := holders st @ holder_rows (filteredHolders minAmount hs),
                            scanned := scanned st @ hs\<rparr>
               in if js_ge (int (length (holders st'))) limit \<or> length hs < pageSize
                  then Some (Inr st')
                  else holders_public_loop limit minAmount (st'\<lparr>offset := offset st' + pageSize\<rparr>) rest)
      else Some (Inr st))"

definition fetchHolders_public ::
  "int option \<Rightarrow> rat option \<Rightarrow> Holder public_upstream \<Rightarrow> (error + HolderRow list) option" where
  "fetchHolders_public limit minAmount ups =
     (case holders_public_loop limit minAmount holders_init ups of
        None \<Rightarrow> None
      | Some (Inl e) \<Rightarrow> Some (Inl e)
      | Some (Inr st) \<Rightarrow> Some (Inr (slice0 limit (holders st))))"


section \<open>The request handlers\<close>

text \<open>
  A value of \<^verbatim>\<open>req.query\<close> is absent, a string, or an array of strings (a parameter
  given several times).
\<close>

datatype qval = Undefined | Str string | Arr "string list"

record Query =
  q_token :: qval
  q_limit :: qval
  q_minAmount :: qval
  q_from :: qval
  q_to :: qval

text \<open>\<^verbatim>\<open>!v\<close> is false exactly for the truthy values: a non-empty string, or any array.\<close>

definition truthy :: "qval \<Rightarrow> bool" where
  "truthy v = (case v of Undefined \<Rightarrow> False | Str s \<Rightarrow> s \<noteq> [] | Arr xs \<Rightarrow> True)"

definition is_string :: "qval \<Rightarrow> bool" where
  "is_string v = (case v of Str s \<Rightarrow> True | _ \<Rightarrow> False)"

text \<open>The default of a destructuring pattern (\<^verbatim>\<open>limit = '50'\<close>) replaces an absent value only.\<close>

definition with_default :: "qval \<Rightarrow> string \<Rightarrow> qval" where
  "with_default v d = (case v of Undefined \<Rightarrow> Str d | _ \<Rightarrow> v)"

fun join_comma :: "string list \<Rightarrow> string" where
  "join_comma [] = []"
| "join_comma [x] = x"
| "join_comma (x # y # ys) = x @ '','' @ join_comma (y # ys)"

text \<open>The string that \<^verbatim>\<open>parseInt\<close> and \<^verbatim>\<open>parseFloat\<close> make of their argument.\<close>

definition to_string :: "qval \<Rightarrow> string" where
  "to_string v = (case v of Undefined \<Rightarrow> ''undefined'' | Str s \<Rightarrow> s | Arr xs \<Rightarrow> join_comma xs)"

datatype 'r body = ErrorBody string | Rows "'r list"

record 'r Response =
  status :: nat
  body :: "'r body"

text \<open>
  What a handler sends, given the outcome of the aggregation: the rows with status 200, or
  the message of the thrown error with status 500. The handlers of the public-API files
  send \<^verbatim>\<open>error.message || 'An unknown error occurred.'\<close>.
\<close>

definition respond :: "(error + 'r list) option \<Rightarrow> 'r Response option" where
  "respond outcome =
     (case outcome of
        None \<Rightarrow> None
      | Some (Inr rows) \<Rightarrow> Some \<lparr>status = 200, body = Rows rows\<rparr>
      | Some (Inl (Error msg)) \<Rightarrow> Some \<lparr>status = 500, body = ErrorBody msg\<rparr>)"


text \<open>
  The handlers (\<^verbatim>\<open>export default async function handler\<close> of each file). They read
  their numbers with the built-ins \<^verbatim>\<open>parseInt(s, 10)\<close> and \<^verbatim>\<open>parseFloat(s)\<close>, which
  are parameters: \<open>parseInt s\<close> is the integer that the call yields, or \<open>None\<close> when it
  yields \<^verbatim>\<open>NaN\<close>, and likewise \<open>parseFloat s\<close>. (The result \<^verbatim>\<open>Infinity\<close>, which
  takes a numeral of more than 308 digits, is left out.)
\<close>

definition handler_holders ::
  "(string \<Rightarrow> int option) \<Rightarrow> (string \<Rightarrow> rat option) \<Rightarrow> string option \<Rightarrow> Query \<Rightarrow> Holder upstream
     \<Rightarrow> HolderRow Response option" where
  "handler_holders parseInt parseFloat key q ups =
     (let token = q_token q;
          limit = with_default (q_limit q) ''100'';
          minAmount = with_default (q_minAmount q) ''0''
      in if \<not> truthy token \<or> \<not> is_string token
         then Some \<lparr>status = 400, body = ErrorBody ''Token address is required.''\<rparr>
         else respond (fetchHolders key (parseInt (to_string limit)) (parseFloat (to_string minAmount)) ups))"

definition handler_traders ::
  "(string \<Rightarrow> int option) \<Rightarrow> string option \<Rightarrow> Query \<Rightarrow> Transaction upstream
     \<Rightarrow> TraderRow Response option" where
  "handler_traders parseInt key q ups =
     (let token = q_token q;
          limit = with_default (q_limit q) ''50''
      in if \<not> truthy token \<or> \<not> is_string token
         then Some \<lparr>status = 400, body = ErrorBody ''Token address is required.''\<rparr>
         else respond (fetchTopTraders key (parseInt (to_string limit)) ups))"

definition handler_interval ::
  "(string \<Rightarrow> int option) \<Rightarrow> string option \<Rightarrow> Query \<Rightarrow> Transaction upstream
     \<Rightarrow> ActiveRow Response option" where
  "handler_interval parseInt key q ups =
     (let token = q_token q; from = q_from q; to = q_to q
      in if \<not> truthy token \<or> \<not> is_string token
         then Some \<lparr>status = 400, body = ErrorBody ''Token address is required.''\<rparr>
         else if \<not> truthy from \<or> \<not> truthy to
         then Some \<lparr>status = 400, body = ErrorBody ''A time range (from, to) is required.''\<rparr>
         else respond (fetchActiveWallets key (parseInt (to_string from)) (parseInt (to_string to)) ups))"




text \<open>
  The examples below pass the strings \<^verbatim>\<open>'50'\<close>, \<^verbatim>\<open>'100'\<close>, \<^verbatim>\<open>'150'\<close> and
  \<^verbatim>\<open>'abc'\<close> to \<^verbatim>\<open>parseInt\<close>, which yields 50, 100, 150 and \<^verbatim>\<open>NaN\<close>. These
  values stand for \<^verbatim>\<open>parseInt\<close> there; at no other string is the table used.
\<close>

definition parseInt_of_examples :: "string \<Rightarrow> int option" where
  "parseInt_of_examples s = map_of [(''50'', 50), (''100'', 100), (''150'', 150)] s"

section \<open>Notions used to state the properties\<close>

text \<open>The records of the pages that an upstream delivers, in order.\<close>

definition delivered :: "'r upstream \<Rightarrow> 'r list" where
  "delivered ups = concat (map (\<lambda>response. case response of Inl e \<Rightarrow> [] | Inr page \<Rightarrow> data page) ups)"

definition delivered_public :: "'r public_upstream \<Rightarrow> 'r list" where
  "delivered_public ups = concat (map (\<lambda>response. case response of Inl e \<Rightarrow> [] | Inr rs \<Rightarrow> rs) ups)"

text \<open>The records that a run has scanned when it returns.\<close>

definition final_scanned :: "(error + ('r, 'z) paging_scheme) option \<Rightarrow> 'r list" where
  "final_scanned outcome = (case outcome of Some (Inr st) \<Rightarrow> scanned st | _ \<Rightarrow> [])"

definition traders_scanned :: "Transaction upstream \<Rightarrow> Transaction list" where
  "traders_scanned ups = final_scanned (traders_loop traders_init ups)"

definition traders_public_scanned :: "PublicTransaction public_upstream \<Rightarrow> PublicTransaction list" where
  "traders_public_scanned ups = final_scanned (traders_public_loop traders_public_init ups)"

definition interval_scanned :: "int option \<Rightarrow> int option \<Rightarrow> Transaction upstream \<Rightarrow> Transaction list" where
  "interval_scanned from to ups = final_scanned (interval_loop from to interval_init ups)"

definition interval_public_scanned ::
  "int option \<Rightarrow> int option \<Rightarrow> PublicTransaction public_upstream \<Rightarrow> PublicTransaction list" where
  "interval_public_scanned from to ups = final_scanned (interval_public_loop from to interval_init ups)"



text \<open>
  The records that the trader aggregation takes in, as the paging is specified: with \<open>n\<close>
  records processed so far, the pages are requested one after the other until a request
  fails, a page is empty, the records processed reach the total that the page reports, or
  they reach the cap. For the public API, \<open>n\<close> is the offset, which advances by the page
  size, and a page shorter than the page size is the last one.
\<close>

fun traders_pages :: "nat \<Rightarrow> Transaction upstream \<Rightarrow> Transaction list" where
  "traders_pages n [] = []"
| "traders_pages n (Inl e # rest) = []"
| "traders_pages n (Inr page # rest) =
     (if maxTransactionsToProcess \<le> n \<or> data page = [] then []
      else data page @
             (if total page \<le> int (n + length (data page)) then []
              else traders_pages (n + length (data page)) rest))"

fun traders_public_pages :: "nat \<Rightarrow> PublicTransaction public_upstream \<Rightarrow> PublicTransaction list" where
  "traders_public_pages n [] = []"
| "traders_public_pages n (Inl e # rest) = []"
| "traders_public_pages n (Inr txs # rest) =
     (if maxTransactionsToProcess_public \<le> n \<or> txs = [] then []
      else txs @ (if length txs < pageSize then [] else traders_public_pages (n + pageSize) rest))"

text \<open>The time short-circuit has fired: the run ended with \<^verbatim>\<open>continueFetching = false\<close>.\<close>

definition short_circuited :: "(error + ('r, 'z) interval_state_scheme) option \<Rightarrow> bool" where
  "short_circuited outcome = (case outcome of Some (Inr st) \<Rightarrow> \<not> continueFetching st | _ \<Rightarrow> False)"

text \<open>
  The records of one wallet, and the volume that they add up to: the sum that starts from 0
  and adds the scaled amounts with \<^verbatim>\<open>+=\<close>, one after the other in the order of the
  records.
\<close>

definition records_of :: "string \<Rightarrow> Transaction list \<Rightarrow> Transaction list" where
  "records_of w txs = filter (\<lambda>tx. owner tx = w) txs"

definition running_volume :: "string \<Rightarrow> Transaction list \<Rightarrow> double" where
  "running_volume w txs =
     foldl double_add (Finite 0) (map (\<lambda>tx. scaled_amount (changeAmount tx)) (records_of w txs))"

definition signed_by :: "string \<Rightarrow> PublicTransaction list \<Rightarrow> PublicTransaction list" where
  "signed_by w txs = filter (\<lambda>tx. first_signer tx = Some w) txs"

text \<open>The latest of a list of times, and the times of a window.\<close>

definition latest :: "nat list \<Rightarrow> nat" where
  "latest ts = fold max ts 0"

definition in_window :: "int \<Rightarrow> int \<Rightarrow> nat \<Rightarrow> bool" where
  "in_window from to t \<longleftrightarrow> from \<le> int t \<and> int t \<le> to"

text \<open>
  A ranking of the wallets of the records \<open>txs\<close>: one row for every wallet of a record,
  but for the wallets that name a member of \<^verbatim>\<open>Object.prototype\<close>; the row has the
  volume (pro API) or the number (public API) of the wallet's records and their latest block
  time; the rows are in descending order of the volume.
\<close>

definition ranked_by_volume :: "Transaction list \<Rightarrow> TraderRow list \<Rightarrow> bool" where
  "ranked_by_volume txs ranked \<longleftrightarrow>
     distinct (map wallet ranked) \<and>
     set (map wallet ranked) = {w \<in> set (map owner txs). \<not> inherited w} \<and>
     (\<forall>r \<in> set ranked.
        volume r = running_volume (wallet r) txs \<and>
        lastTx r = Max (set (map blockTime (records_of (wallet r) txs)))) \<and>
     sorted_wrt (\<lambda>a b. double_ge (volume a) (volume b)) ranked"

definition ranked_by_count :: "PublicTransaction list \<Rightarrow> TraderRow list \<Rightarrow> bool" where
  "ranked_by_count txs ranked \<longleftrightarrow>
     distinct (map wallet ranked) \<and>
     set (map wallet ranked) = {w. (\<exists>tx \<in> set txs. first_signer tx = Some w) \<and> \<not> inherited w} \<and>
     (\<forall>r \<in> set ranked.
        volume r = Finite (of_nat (length (signed_by (wallet r) txs))) \<and>
        lastTx r = Max (set (map pt_blockTime (signed_by (wallet r) txs)))) \<and>
     sorted_wrt (\<lambda>a b. double_ge (volume a) (volume b)) ranked"

text \<open>What the accumulators hold once the records \<open>txs\<close> have been scanned.\<close>

definition volumes_hold :: "Transaction list \<Rightarrow> (string \<times> VolumeEntry) list \<Rightarrow> bool" where
  "volumes_hold txs wv \<longleftrightarrow>
     distinct (map fst wv) \<and>
     (\<forall>w. map_of wv w =
        (if inherited w \<or> records_of w txs = [] then None
         else Some \<lparr>acc_lastTx = latest (map blockTime (records_of w txs)),
                    acc_volume = running_volume w txs\<rparr>))"

definition counts_hold :: "PublicTransaction list \<Rightarrow> (string \<times> CountEntry) list \<Rightarrow> bool" where
  "counts_hold txs wc \<longleftrightarrow>
     distinct (map fst wc) \<and>
     (\<forall>w. map_of wc w =
        (if inherited w \<or> signed_by w txs = [] then None
         else Some \<lparr>acc_lastTx = latest (map pt_blockTime (signed_by w txs)),
                    acc_count = length (signed_by w txs)\<rparr>))"

text \<open>
  The observations \<open>(wallet, block time)\<close> that the interval scan takes from the records
  \<open>txs\<close>, and what \<^verbatim>\<open>activeWallets\<close> holds once they have been noted.
\<close>

definition observed :: "int option \<Rightarrow> int option \<Rightarrow> Transaction list \<Rightarrow> (string \<times> nat) list" where
  "observed from to txs =
     map (\<lambda>tx. (owner tx, blockTime tx))
       (filter (\<lambda>tx. js_le (int (blockTime tx)) to \<and> js_ge (int (blockTime tx)) from) txs)"

definition observed_public :: "int option \<Rightarrow> PublicTransaction list \<Rightarrow> (string \<times> nat) list" where
  "observed_public to txs =
     concat (map (\<lambda>tx. case first_signer tx of
                          None \<Rightarrow> []
                        | Some w \<Rightarrow> if js_le (int (pt_blockTime tx)) to then [(w, pt_blockTime tx)] else [])
                 txs)"

definition times_of :: "string \<Rightarrow> (string \<times> nat) list \<Rightarrow> nat list" where
  "times_of w obs = map snd (filter (\<lambda>p. fst p = w) obs)"

definition activity_holds :: "(string \<times> nat) list \<Rightarrow> (string \<times> LastSeen) list \<Rightarrow> bool" where
  "activity_holds obs aw \<longleftrightarrow>
     distinct (map fst aw) \<and>
     (\<forall>w. map_of aw w =
        (if times_of w obs = [] then None else Some \<lparr>acc_lastTx = latest (times_of w obs)\<rparr>))"

text \<open>The records whose block time lies in the window \<open>[from, to]\<close>.\<close>

definition window_records :: "int \<Rightarrow> int \<Rightarrow> Transaction list \<Rightarrow> Transaction list" where
  "window_records f t txs = filter (\<lambda>tx. in_window f t (blockTime tx)) txs"

definition window_records_public :: "int \<Rightarrow> int \<Rightarrow> PublicTransaction list \<Rightarrow> PublicTransaction list" where
  "window_records_public f t txs = filter (\<lambda>tx. in_window f t (pt_blockTime tx)) txs"

text \<open>A response that ends every loop that receives it: a failure, or a page without records.\<close>

definition closes :: "axios_error + 'r Page \<Rightarrow> bool" where
  "closes response = (case response of Inl e \<Rightarrow> True | Inr page \<Rightarrow> data page = [])"

definition closes_public :: "axios_error + 'r list \<Rightarrow> bool" where
  "closes_public response = (case response of Inl e \<Rightarrow> True | Inr rs \<Rightarrow> rs = [])"

section \<open>Properties of the accumulators\<close>

lemma map_of_map_set: "map_of (map_set k v kvs) = (map_of kvs)(k \<mapsto> v)"
  by (induction kvs) (auto simp: fun_eq_iff)

lemma keys_map_set:
  "map fst (map_set k v kvs) = (if k \<in> fst ` set kvs then map fst kvs else map fst kvs @ [k])"
  by (induction kvs) force+

lemma distinct_map_set: "distinct (map fst kvs) \<Longrightarrow> distinct (map fst (map_set k v kvs))"
  by (simp add: keys_map_set)

lemma latest_snoc: "latest (ts @ [t]) = max t (latest ts)"
  by (simp add: latest_def)

lemma latest_Max: "ts \<noteq> [] \<Longrightarrow> latest ts = Max (set ts)"
proof -
  assume ne: "ts \<noteq> []"
  have "latest ts = Max (set (0 # ts))"
    unfolding latest_def by (simp only: Max.set_eq_fold)
  also have "\<dots> = Max (set ts)"
    using ne by (simp add: max_def)
  finally show ?thesis .
qed

lemma volumes_hold_add:
  assumes "volumes_hold txs wv"
  shows "volumes_hold (txs @ [tx]) (add_transfer tx wv)"
  using assms
proof (cases "inherited (owner tx)")
  case True
  with assms show ?thesis
    unfolding volumes_hold_def add_transfer_def
    by (auto simp: records_of_def running_volume_def)
next
  case False
  with assms show ?thesis
    unfolding volumes_hold_def add_transfer_def Let_def
    by (auto simp: distinct_map_set map_of_map_set records_of_def running_volume_def
          latest_snoc latest_def max_def)
qed

lemma volumes_hold_fold:
  "volumes_hold txs wv \<Longrightarrow> volumes_hold (txs @ page) (fold add_transfer page wv)"
proof (induction page arbitrary: txs wv)
  case Nil
  then show ?case by simp
next
  case (Cons tx page)
  from volumes_hold_add [OF Cons.prems] have "volumes_hold (txs @ [tx]) (add_transfer tx wv)" .
  from Cons.IH [OF this] show ?case by simp
qed

lemma traders_loop_volumes:
  "traders_loop st ups = Some (Inr st') \<Longrightarrow> volumes_hold (scanned st) (walletVolumes st)
     \<Longrightarrow> volumes_hold (scanned st') (walletVolumes st')"
proof (induction ups arbitrary: st)
  case Nil
  then show ?case by (simp split: if_splits)
next
  case (Cons response rest)
  show ?case
  proof (cases response)
    case (Inl e)
    with Cons.prems show ?thesis by (simp split: if_splits)
  next
    case (Inr page)
    with Cons.prems Cons.IH show ?thesis
      by (auto simp: Let_def volumes_hold_fold split: if_splits)
  qed
qed

lemma traders_loop_prefix:
  "traders_loop st ups = Some (Inr st') \<Longrightarrow> \<exists>rest. scanned st @ delivered ups = scanned st' @ rest"
proof (induction ups arbitrary: st)
  case Nil
  then show ?case by (simp add: delivered_def split: if_splits)
next
  case (Cons response rest)
  show ?case
  proof (cases response)
    case (Inl e)
    with Cons.prems show ?thesis by (simp split: if_splits)
  next
    case (Inr page)
    with Cons.prems Cons.IH show ?thesis
      by (fastforce simp: Let_def delivered_def split: if_splits)
  qed
qed

lemma traders_loop_processed:
  "traders_loop st ups = Some (Inr st') \<Longrightarrow> transactionsProcessed st = length (scanned st)
     \<Longrightarrow> transactionsProcessed st' = length (scanned st')"
proof (induction ups arbitrary: st)
  case Nil
  then show ?case by (simp split: if_splits)
next
  case (Cons response rest)
  show ?case
  proof (cases response)
    case (Inl e)
    with Cons.prems show ?thesis by (simp split: if_splits)
  next
    case (Inr page)
    with Cons.prems Cons.IH show ?thesis
      by (auto simp: Let_def split: if_splits)
  qed
qed

lemma counts_hold_add:
  assumes "counts_hold txs wc"
  shows "counts_hold (txs @ [tx]) (count_transaction tx wc)"
proof (cases "first_signer tx")
  case None
  with assms show ?thesis
    by (simp add: counts_hold_def count_transaction_def signed_by_def)
next
  case (Some x)
  show ?thesis
  proof (cases "inherited x")
    case True
    with Some assms show ?thesis
      unfolding counts_hold_def count_transaction_def
      by (auto simp: signed_by_def)
  next
    case False
    with Some assms show ?thesis
      unfolding counts_hold_def count_transaction_def Let_def
      by (auto simp: distinct_map_set map_of_map_set signed_by_def latest_snoc latest_def max_def)
  qed
qed

lemma counts_hold_fold:
  "counts_hold txs wc \<Longrightarrow> counts_hold (txs @ page) (fold count_transaction page wc)"
proof (induction page arbitrary: txs wc)
  case Nil
  then show ?case by simp
next
  case (Cons tx page)
  from counts_hold_add [OF Cons.prems] have "counts_hold (txs @ [tx]) (count_transaction tx wc)" .
  from Cons.IH [OF this] show ?case by simp
qed

lemma traders_public_loop_counts:
  "traders_public_loop st ups = Some (Inr st') \<Longrightarrow> counts_hold (scanned st) (walletCounts st)
     \<Longrightarrow> counts_hold (scanned st') (walletCounts st')"
proof (induction ups arbitrary: st)
  case Nil
  then show ?case by (simp split: if_splits)
next
  case (Cons response rest)
  show ?case
  proof (cases response)
    case (Inl e)
    with Cons.prems show ?thesis by (simp split: if_splits)
  next
    case (Inr page)
    with Cons.prems Cons.IH show ?thesis
      by (auto simp: Let_def counts_hold_fold split: if_splits)
  qed
qed

lemma traders_public_loop_prefix:
  "traders_public_loop st ups = Some (Inr st')
     \<Longrightarrow> \<exists>rest. scanned st @ delivered_public ups = scanned st' @ rest"
proof (induction ups arbitrary: st)
  case Nil
  then show ?case by (simp add: delivered_public_def split: if_splits)
next
  case (Cons response rest)
  show ?case
  proof (cases response)
    case (Inl e)
    with Cons.prems show ?thesis by (simp split: if_splits)
  next
    case (Inr page)
    with Cons.prems Cons.IH show ?thesis
      by (fastforce simp: Let_def delivered_public_def split: if_splits)
  qed
qed

lemma distinct_map_sort_key: "distinct (map h (sort_key f xs)) = distinct (map h xs)"
  by (simp add: distinct_map)

lemma set_object_entries: "set (object_entries kvs) = set kvs"
  by (auto simp: object_entries_def)

lemma distinct_object_entries:
  assumes "distinct (map fst kvs)"
  shows "distinct (map fst (object_entries kvs))"
proof -
  let ?ix = "filter (\<lambda>(k, v). array_index k \<noteq> None) kvs"
  let ?nm = "filter (\<lambda>(k, v). array_index k = None) kvs"
  let ?f = "\<lambda>(k, v). case array_index k of None \<Rightarrow> 0 | Some i \<Rightarrow> i"
  from assms have "distinct (map fst ?ix)" and 2: "distinct (map fst ?nm)"
    by (simp_all add: distinct_map_filter)
  then have 1: "distinct (map fst (sort_key ?f ?ix))"
    by (simp only: distinct_map_sort_key)
  have 3: "set (map fst (sort_key ?f ?ix)) \<inter> set (map fst ?nm) = {}"
    by auto
  from 1 2 3 show ?thesis
    unfolding object_entries_def map_append distinct_append by blast
qed

lemma set_insert_by_volume: "set (insert_by_volume r rs) = insert r (set rs)"
  by (induction rs) auto

lemma set_sort_by_volume: "set (sort_by_volume rs) = set rs"
  unfolding sort_by_volume_def by (induction rs) (simp_all add: set_insert_by_volume)

lemma distinct_wallets_insert_by_volume:
  "distinct (map wallet (insert_by_volume r rs)) \<longleftrightarrow> wallet r \<notin> wallet ` set rs \<and> distinct (map wallet rs)"
  by (induction rs) (auto simp: set_insert_by_volume)

lemma distinct_wallets_sort_by_volume:
  "distinct (map wallet (sort_by_volume rs)) \<longleftrightarrow> distinct (map wallet rs)"
  unfolding sort_by_volume_def
proof (induction rs)
  case Nil
  show ?case by simp
next
  case (Cons r rs)
  have "set (foldr insert_by_volume rs []) = set rs"
    using set_sort_by_volume [of rs] by (simp add: sort_by_volume_def)
  with Cons show ?case
    by (simp add: distinct_wallets_insert_by_volume)
qed

lemma double_ge_total: "\<not> double_ge a b \<Longrightarrow> double_ge b a"
  by (cases a; cases b) auto

lemma double_ge_trans: "double_ge a b \<Longrightarrow> double_ge b c \<Longrightarrow> double_ge a c"
  by (cases a; cases b; cases c) auto

lemma sorted_insert_by_volume:
  "sorted_wrt (\<lambda>a b. double_ge (volume a) (volume b)) rs
     \<Longrightarrow> sorted_wrt (\<lambda>a b. double_ge (volume a) (volume b)) (insert_by_volume r rs)"
proof (induction rs)
  case Nil
  show ?case by simp
next
  case (Cons y ys)
  show ?case
  proof (cases "double_ge (volume r) (volume y)")
    case True
    with Cons.prems show ?thesis
      by (auto intro: double_ge_trans)
  next
    case False
    then have "double_ge (volume y) (volume r)"
      by (rule double_ge_total)
    with False Cons show ?thesis
      by (auto simp: set_insert_by_volume)
  qed
qed

lemma sorted_sort_by_volume:
  "sorted_wrt (\<lambda>a b. double_ge (volume a) (volume b)) (sort_by_volume rs)"
  unfolding sort_by_volume_def by (induction rs) (simp_all add: sorted_insert_by_volume)

lemma volumes_hold_ranked:
  assumes "volumes_hold txs wv"
  shows "ranked_by_volume txs (sortedTraders wv)"
proof -
  let ?row = "\<lambda>(w, e). \<lparr>wallet = w, lastTx = acc_lastTx e, volume = acc_volume e\<rparr>"
  from assms have d: "distinct (map fst wv)"
    and m: "\<And>w. map_of wv w =
        (if inherited w \<or> records_of w txs = [] then None
         else Some \<lparr>acc_lastTx = latest (map blockTime (records_of w txs)),
                    acc_volume = running_volume w txs\<rparr>)"
    by (simp_all add: volumes_hold_def)
  have keys: "map wallet (map ?row kvs) = map fst kvs" for kvs :: "(string \<times> VolumeEntry) list"
    by (induction kvs) auto
  have 1: "distinct (map wallet (sortedTraders wv))"
    unfolding sortedTraders_def distinct_wallets_sort_by_volume keys
    using d by (rule distinct_object_entries)
  have "set (map fst wv) = dom (map_of wv)"
    by (simp add: dom_map_of_conv_image_fst)
  also have "\<dots> = {w. \<not> inherited w \<and> records_of w txs \<noteq> []}"
    by (auto simp: m dom_def)
  also have "\<dots> = {w \<in> set (map owner txs). \<not> inherited w}"
    by (auto simp: records_of_def filter_empty_conv)
  finally have ks: "set (map fst wv) = {w \<in> set (map owner txs). \<not> inherited w}" .
  have "set (map wallet (sortedTraders wv)) = set (map wallet (map ?row (object_entries wv)))"
    unfolding sortedTraders_def by (simp only: set_map set_sort_by_volume)
  also have "\<dots> = set (map fst (object_entries wv))"
    by (simp only: keys)
  also have "\<dots> = set (map fst wv)"
    by (simp only: set_map set_object_entries)
  finally have 2: "set (map wallet (sortedTraders wv)) = {w \<in> set (map owner txs). \<not> inherited w}"
    using ks by simp
  have 3: "volume r = running_volume (wallet r) txs \<and>
        lastTx r = Max (set (map blockTime (records_of (wallet r) txs)))"
    if "r \<in> set (sortedTraders wv)" for r
  proof -
    from that have "r \<in> ?row ` set wv"
      by (simp add: sortedTraders_def set_sort_by_volume set_object_entries)
    then obtain w e where we: "(w, e) \<in> set wv"
      and r: "r = \<lparr>wallet = w, lastTx = acc_lastTx e, volume = acc_volume e\<rparr>"
      by auto
    from we d have "map_of wv w = Some e" by simp
    with m [of w] have ne: "records_of w txs \<noteq> []"
      and e: "e = \<lparr>acc_lastTx = latest (map blockTime (records_of w txs)),
                    acc_volume = running_volume w txs\<rparr>"
      by (simp_all split: if_splits)
    from ne have "latest (map blockTime (records_of w txs)) = Max (set (map blockTime (records_of w txs)))"
      by (intro latest_Max) simp
    with r e show ?thesis by simp
  qed
  have 4: "sorted_wrt (\<lambda>a b. double_ge (volume a) (volume b)) (sortedTraders wv)"
    unfolding sortedTraders_def by (rule sorted_sort_by_volume)
  from 1 2 3 4 show ?thesis
    unfolding ranked_by_volume_def by blast
qed

lemma counts_hold_ranked:
  assumes "counts_hold txs wc"
  shows "ranked_by_count txs (sortedTraders_public wc)"
proof -
  let ?row = "\<lambda>(w, e). \<lparr>wallet = w, lastTx = acc_lastTx e, volume = Finite (of_nat (acc_count e))\<rparr>"
  from assms have d: "distinct (map fst wc)"
    and m: "\<And>w. map_of wc w =
        (if inherited w \<or> signed_by w txs = [] then None
         else Some \<lparr>acc_lastTx = latest (map pt_blockTime (signed_by w txs)),
                    acc_count = length (signed_by w txs)\<rparr>)"
    by (simp_all add: counts_hold_def)
  have keys: "map wallet (map ?row kvs) = map fst kvs" for kvs :: "(string \<times> CountEntry) list"
    by (induction kvs) auto
  have 1: "distinct (map wallet (sortedTraders_public wc))"
    unfolding sortedTraders_public_def distinct_wallets_sort_by_volume keys
    using d by (rule distinct_object_entries)
  have "set (map fst wc) = dom (map_of wc)"
    by (simp add: dom_map_of_conv_image_fst)
  also have "\<dots> = {w. \<not> inherited w \<and> signed_by w txs \<noteq> []}"
    by (auto simp: m dom_def)
  also have "\<dots> = {w. (\<exists>tx \<in> set txs. first_signer tx = Some w) \<and> \<not> inherited w}"
    by (auto simp: signed_by_def filter_empty_conv)
  finally have ks: "set (map fst wc) = {w. (\<exists>tx \<in> set txs. first_signer tx = Some w) \<and> \<not> inherited w}" .
  have "set (map wallet (sortedTraders_public wc)) = set (map wallet (map ?row (object_entries wc)))"
    unfolding sortedTraders_public_def by (simp only: set_map set_sort_by_volume)
  also have "\<dots> = set (map fst (object_entries wc))"
    by (simp only: keys)
  also have "\<dots> = set (map fst wc)"
    by (simp only: set_map set_object_entries)
  finally have 2: "set (map wallet (sortedTraders_public wc))
      = {w. (\<exists>tx \<in> set txs. first_signer tx = Some w) \<and> \<not> inherited w}"
    using ks by simp
  have 3: "volume r = Finite (of_nat (length (signed_by (wallet r) txs))) \<and>
        lastTx r = Max (set (map pt_blockTime (signed_by (wallet r) txs)))"
    if "r \<in> set (sortedTraders_public wc)" for r
  proof -
    from that have "r \<in> ?row ` set wc"
      by (simp add: sortedTraders_public_def set_sort_by_volume set_object_entries)
    then obtain w e where we: "(w, e) \<in> set wc"
      and r: "r = \<lparr>wallet = w, lastTx = acc_lastTx e, volume = Finite (of_nat (acc_count e))\<rparr>"
      by auto
    from we d have "map_of wc w = Some e" by simp
    with m [of w] have ne: "signed_by w txs \<noteq> []"
      and e: "e = \<lparr>acc_lastTx = latest (map pt_blockTime (signed_by w txs)),
                    acc_count = length (signed_by w txs)\<rparr>"
      by (simp_all split: if_splits)
    from ne have "latest (map pt_blockTime (signed_by w txs)) = Max (set (map pt_blockTime (signed_by w txs)))"
      by (intro latest_Max) simp
    with r e show ?thesis by simp
  qed
  have 4: "sorted_wrt (\<lambda>a b. double_ge (volume a) (volume b)) (sortedTraders_public wc)"
    unfolding sortedTraders_public_def by (rule sorted_sort_by_volume)
  from 1 2 3 4 show ?thesis
    unfolding ranked_by_count_def by blast
qed

lemma floor_rat_numerals:
  "\<lfloor>(numeral a :: rat) / numeral b\<rfloor> = numeral a div numeral b"
  "\<lfloor>(1 :: rat) / numeral b\<rfloor> = 1 div numeral b"
  using floor_divide_of_int_eq [of "numeral a" "numeral b", where ?'a = rat]
    floor_divide_of_int_eq [of 1 "numeral b", where ?'a = rat]
  by simp_all

lemma ceiling_rat_numerals:
  "\<lceil>(numeral a :: rat) / numeral b\<rceil> = - (- numeral a div numeral b)"
  "\<lceil>(1 :: rat) / numeral b\<rceil> = - (- 1 div numeral b)"
  using ceiling_divide_eq_div [of "numeral a" "numeral b", where ?'a = rat]
    ceiling_divide_eq_div [of 1 "numeral b", where ?'a = rat]
  by simp_all

lemmas double_eval =
  scaled_amount_def round_double_def floor_log2_def pow2_def round_half_even_def
  bit_length.simps Let_def floor_rat_numerals ceiling_rat_numerals

lemma scaled_amount_examples:
  "scaled_amount 1000000000 = Finite 1"
  "scaled_amount 2000000000 = Finite 2"
  "scaled_amount 3000000000 = Finite 3"
  "scaled_amount 100000000 = Finite (3602879701896397 / 36028797018963968)"
  "scaled_amount 200000000 = Finite (3602879701896397 / 18014398509481984)"
  "scaled_amount 300000000 = Finite (5404319552844595 / 18014398509481984)"
  by (simp_all add: double_eval)

lemma double_add_examples:
  "double_add (Finite 0) (Finite 1) = Finite 1"
  "double_add (Finite 0) (Finite 2) = Finite 2"
  "double_add (Finite 0) (Finite 3) = Finite 3"
  "double_add (Finite 2) (Finite 1) = Finite 3"
  "double_add (Finite 0) (Finite (3602879701896397 / 36028797018963968))
     = Finite (3602879701896397 / 36028797018963968)"
  "double_add (Finite 0) (Finite (5404319552844595 / 18014398509481984))
     = Finite (5404319552844595 / 18014398509481984)"
  "double_add (Finite (3602879701896397 / 36028797018963968)) (Finite (3602879701896397 / 18014398509481984))
     = Finite (1351079888211149 / 4503599627370496)"
  by (simp_all add: double_add.simps double_eval)

lemmas traders_eval =
  add_transfer_def count_transaction_def first_signer_def inherited_def
  sortedTraders_def sortedTraders_public_def sort_by_volume_def
  object_entries_def array_index_def digit_value_def
  scaled_amount_examples double_add_examples

lemma traders_loop_pages:
  "traders_loop st ups = Some (Inr st')
     \<Longrightarrow> scanned st' = scanned st @ traders_pages (transactionsProcessed st) ups"
proof (induction ups arbitrary: st)
  case Nil
  then show ?case by (simp split: if_splits)
next
  case (Cons response rest)
  show ?case
  proof (cases response)
    case (Inl e)
    with Cons.prems show ?thesis by (simp split: if_splits)
  next
    case (Inr page)
    with Cons.prems Cons.IH show ?thesis
      by (auto simp: Let_def split: if_splits)
  qed
qed

lemma traders_public_loop_pages:
  "traders_public_loop st ups = Some (Inr st')
     \<Longrightarrow> scanned st' = scanned st @ traders_public_pages (offset st) ups"
proof (induction ups arbitrary: st)
  case Nil
  then show ?case by (simp split: if_splits)
next
  case (Cons response rest)
  show ?case
  proof (cases response)
    case (Inl e)
    with Cons.prems show ?thesis by (simp split: if_splits)
  next
    case (Inr page)
    with Cons.prems Cons.IH show ?thesis
      by (auto simp: Let_def split: if_splits)
  qed
qed

lemma volumes_hold_init: "volumes_hold (scanned traders_init) (walletVolumes traders_init)"
  by (simp add: volumes_hold_def traders_init_def records_of_def)

lemma counts_hold_init: "counts_hold (scanned traders_public_init) (walletCounts traders_public_init)"
  by (simp add: counts_hold_def traders_public_init_def signed_by_def)

lemma slice0_nonneg: "0 \<le> l \<Longrightarrow> slice0 (Some l) xs = take (nat l) xs"
  by (simp add: slice0_def)

lemma slice0_negative:
  assumes "l < 0"
  shows "slice0 (Some l) xs = take (length xs - nat (- l)) xs"
proof -
  from assms have "nat (int (length xs) + l) = length xs - nat (- l)"
    by linarith
  with assms show ?thesis
    by (simp add: slice0_def)
qed

lemma fetchTopTraders_Inr:
  assumes "fetchTopTraders key limit ups = Some (Inr out)"
  obtains st where "traders_loop traders_init ups = Some (Inr st)"
    and "out = slice0 limit (sortedTraders (walletVolumes st))"
    and "traders_scanned ups = scanned st"
  using assms
  by (auto simp: fetchTopTraders_def traders_scanned_def final_scanned_def
           split: option.splits sum.splits if_splits)

lemma fetchTopTraders_public_Inr:
  assumes "fetchTopTraders_public limit ups = Some (Inr out)"
  obtains st where "traders_public_loop traders_public_init ups = Some (Inr st)"
    and "out = slice0 limit (sortedTraders_public (walletCounts st))"
    and "traders_public_scanned ups = scanned st"
  using assms
  by (auto simp: fetchTopTraders_public_def traders_public_scanned_def final_scanned_def
           split: option.splits sum.splits)


lemma sorted_wrt_slice0: "sorted_wrt P xs \<Longrightarrow> sorted_wrt P (slice0 limit xs)"
  by (cases limit) (simp_all add: slice0_def)

section \<open>Trader aggregation: accumulate, sort, truncate\<close>

text \<open>
  The trader aggregation does not emit every wallet of the transfer stream, its accumulator
  is not the sum of the amounts, and its result can be longer than the limit. With the limit
  1, the wallet \<open>B\<close> below is not emitted, and the volume of \<open>A\<close>, whose amounts add
  up to \<open>3/10\<close>, is the double \<open>0.30000000000000004\<close>: it is neither \<open>3/10\<close> nor the
  double \<open>0.3\<close>, which is the volume that the single record of \<open>B\<close> gives. With the limit
  \<open>- 1\<close>, two of three rows are returned. A wallet named \<^verbatim>\<open>constructor\<close> is not
  emitted at all.
\<close>

theorem traders_rounding_and_limit:
  "fetchTopTraders (Some ''key'') (Some 1)
     [Inr \<lparr>data = [\<lparr>owner = ''B'', blockTime = 100, changeAmount = 300000000\<rparr>,
                   \<lparr>owner = ''A'', blockTime = 200, changeAmount = 100000000\<rparr>,
                   \<lparr>owner = ''A'', blockTime = 300, changeAmount = 200000000\<rparr>], total = 3\<rparr>]
     = Some (Inr [\<lparr>wallet = ''A'', lastTx = 300,
                   volume = Finite (1351079888211149 / 4503599627370496)\<rparr>]) \<and>
   Finite (1351079888211149 / 4503599627370496) \<noteq> Finite (3 / 10) \<and>
   Finite (1351079888211149 / 4503599627370496) \<noteq> scaled_amount 300000000 \<and>
   fetchTopTraders (Some ''key'') (Some (- 1))
     [Inr \<lparr>data = [\<lparr>owner = ''A'', blockTime = 100, changeAmount = 3000000000\<rparr>,
                   \<lparr>owner = ''B'', blockTime = 200, changeAmount = 2000000000\<rparr>,
                   \<lparr>owner = ''C'', blockTime = 300, changeAmount = 1000000000\<rparr>], total = 3\<rparr>]
     = Some (Inr [\<lparr>wallet = ''A'', lastTx = 100, volume = Finite 3\<rparr>,
                  \<lparr>wallet = ''B'', lastTx = 200, volume = Finite 2\<rparr>]) \<and>
   \<not> int (length [\<lparr>wallet = ''A'', lastTx = 100 :: nat, volume = Finite 3\<rparr>,
                    \<lparr>wallet = ''B'', lastTx = 200, volume = Finite 2\<rparr>]) \<le> - 1 \<and>
   fetchTopTraders (Some ''key'') (Some 10)
     [Inr \<lparr>data = [\<lparr>owner = ''constructor'', blockTime = 100, changeAmount = 1000000000\<rparr>],
           total = 1\<rparr>]
     = Some (Inr [])"
  by (simp add: fetchTopTraders_def api_key_configured_def traders_init_def
        maxTransactionsToProcess_def pageSize_def traders_eval slice0_def)

text \<open>
  Claim C1, as amended. When the trader aggregation returns, its result is cut by
  \<^verbatim>\<open>slice(0, limit)\<close> from a ranking of the records that it has taken in: the records
  of the pages requested until a page is empty, the total is reached or the cap is reached.
  The ranking has exactly one row for every wallet of these records that does not name a
  member of \<^verbatim>\<open>Object.prototype\<close>; the row's volume is the running sum in doubles, in
  the order of the stream, of \<open>\<bar>changeAmount\<bar> / 10^9\<close> over the wallet's records (public
  API: the number of the wallet's records), its \<open>lastTx\<close> is the largest block time of
  the wallet's records, and the rows are in descending order of the volume. The result is
  in descending order of the volume; for a limit \<open>l \<ge> 0\<close> it is the first \<open>l\<close> rows of
  the ranking and has at most \<open>l\<close> rows; for a limit \<open>l < 0\<close> it is the ranking
  without its last \<open>- l\<close> rows.
\<close>

theorem traders_accumulate_sort_truncate:
  "(fetchTopTraders key limit ups = Some (Inr out) \<longrightarrow>
      (\<exists>ranked. ranked_by_volume (traders_pages 0 ups) ranked \<and>
         out = slice0 limit ranked \<and>
         sorted_wrt (\<lambda>a b. double_ge (volume a) (volume b)) out \<and>
         (\<forall>l. limit = Some l \<and> 0 \<le> l \<longrightarrow> out = take (nat l) ranked \<and> int (length out) \<le> l) \<and>
         (\<forall>l. limit = Some l \<and> l < 0 \<longrightarrow> out = take (length ranked - nat (- l)) ranked))) \<and>
   (fetchTopTraders_public limit pups = Some (Inr pout) \<longrightarrow>
      (\<exists>ranked. ranked_by_count (traders_public_pages 0 pups) ranked \<and>
         pout = slice0 limit ranked \<and>
         sorted_wrt (\<lambda>a b. double_ge (volume a) (volume b)) pout \<and>
         (\<forall>l. limit = Some l \<and> 0 \<le> l \<longrightarrow> pout = take (nat l) ranked \<and> int (length pout) \<le> l) \<and>
         (\<forall>l. limit = Some l \<and> l < 0 \<longrightarrow> pout = take (length ranked - nat (- l)) ranked)))"
proof (intro conjI impI)
  assume a: "fetchTopTraders key limit ups = Some (Inr out)"
  then obtain st where st: "traders_loop traders_init ups = Some (Inr st)"
    and out: "out = slice0 limit (sortedTraders (walletVolumes st))"
    by (blast elim: fetchTopTraders_Inr)
  let ?ranked = "sortedTraders (walletVolumes st)"
  from traders_loop_pages [OF st] have sc: "scanned st = traders_pages 0 ups"
    by (simp add: traders_init_def)
  from traders_loop_volumes [OF st volumes_hold_init]
  have "ranked_by_volume (scanned st) ?ranked"
    by (rule volumes_hold_ranked)
  then have r: "ranked_by_volume (traders_pages 0 ups) ?ranked"
    by (simp only: sc)
  from r have "sorted_wrt (\<lambda>a b. double_ge (volume a) (volume b)) ?ranked"
    by (simp add: ranked_by_volume_def)
  then have s: "sorted_wrt (\<lambda>a b. double_ge (volume a) (volume b)) out"
    unfolding out by (rule sorted_wrt_slice0)
  have b: "\<forall>l. limit = Some l \<and> 0 \<le> l \<longrightarrow> out = take (nat l) ?ranked \<and> int (length out) \<le> l"
    by (auto simp: out slice0_nonneg min_def)
  have c: "\<forall>l. limit = Some l \<and> l < 0 \<longrightarrow> out = take (length ?ranked - nat (- l)) ?ranked"
    by (auto simp: out slice0_negative)
  from r out s b c show "\<exists>ranked. ranked_by_volume (traders_pages 0 ups) ranked \<and>
         out = slice0 limit ranked \<and>
         sorted_wrt (\<lambda>a b. double_ge (volume a) (volume b)) out \<and>
         (\<forall>l. limit = Some l \<and> 0 \<le> l \<longrightarrow> out = take (nat l) ranked \<and> int (length out) \<le> l) \<and>
         (\<forall>l. limit = Some l \<and> l < 0 \<longrightarrow> out = take (length ranked - nat (- l)) ranked)"
    by blast
next
  assume a: "fetchTopTraders_public limit pups = Some (Inr pout)"
  then obtain st where st: "traders_public_loop traders_public_init pups = Some (Inr st)"
    and out: "pout = slice0 limit (sortedTraders_public (walletCounts st))"
    by (blast elim: fetchTopTraders_public_Inr)
  let ?ranked = "sortedTraders_public (walletCounts st)"
  from traders_public_loop_pages [OF st] have sc: "scanned st = traders_public_pages 0 pups"
    by (simp add: traders_public_init_def)
  from traders_public_loop_counts [OF st counts_hold_init]
  have "ranked_by_count (scanned st) ?ranked"
    by (rule counts_hold_ranked)
  then have r: "ranked_by_count (traders_public_pages 0 pups) ?ranked"
    by (simp only: sc)
  from r have "sorted_wrt (\<lambda>a b. double_ge (volume a) (volume b)) ?ranked"
    by (simp add: ranked_by_count_def)
  then have s: "sorted_wrt (\<lambda>a b. double_ge (volume a) (volume b)) pout"
    unfolding out by (rule sorted_wrt_slice0)
  have b: "\<forall>l. limit = Some l \<and> 0 \<le> l \<longrightarrow> pout = take (nat l) ?ranked \<and> int (length pout) \<le> l"
    by (auto simp: out slice0_nonneg min_def)
  have c: "\<forall>l. limit = Some l \<and> l < 0 \<longrightarrow> pout = take (length ?ranked - nat (- l)) ?ranked"
    by (auto simp: out slice0_negative)
  from r out s b c show "\<exists>ranked. ranked_by_count (traders_public_pages 0 pups) ranked \<and>
         pout = slice0 limit ranked \<and>
         sorted_wrt (\<lambda>a b. double_ge (volume a) (volume b)) pout \<and>
         (\<forall>l. limit = Some l \<and> 0 \<le> l \<longrightarrow> pout = take (nat l) ranked \<and> int (length pout) \<le> l) \<and>
         (\<forall>l. limit = Some l \<and> l < 0 \<longrightarrow> pout = take (length ranked - nat (- l)) ranked)"
    by blast
qed

theorem traders_accumulate_sort_truncate_witness:
  "fetchTopTraders (Some ''key'') (Some 10)
     [Inr \<lparr>data = [\<lparr>owner = ''A'', blockTime = 100, changeAmount = 2000000000\<rparr>,
                   \<lparr>owner = ''A'', blockTime = 200, changeAmount = 1000000000\<rparr>], total = 2\<rparr>]
     = Some (Inr [\<lparr>wallet = ''A'', lastTx = 200, volume = Finite 3\<rparr>]) \<and>
   (\<exists>ranked.
      ranked_by_volume
        (traders_pages 0
          [Inr \<lparr>data = [\<lparr>owner = ''A'', blockTime = 100, changeAmount = 2000000000\<rparr>,
                        \<lparr>owner = ''A'', blockTime = 200, changeAmount = 1000000000\<rparr>], total = 2\<rparr>]) ranked \<and>
      [\<lparr>wallet = ''A'', lastTx = 200, volume = Finite 3\<rparr>] = take (nat 10) ranked) \<and>
   fetchTopTraders_public (Some 10)
     [Inr [\<lparr>signer = [''A''], pt_blockTime = 100\<rparr>, \<lparr>signer = [''A''], pt_blockTime = 200\<rparr>]]
     = Some (Inr [\<lparr>wallet = ''A'', lastTx = 200, volume = Finite 2\<rparr>]) \<and>
   (\<exists>ranked.
      ranked_by_count
        (traders_public_pages 0
          [Inr [\<lparr>signer = [''A''], pt_blockTime = 100\<rparr>, \<lparr>signer = [''A''], pt_blockTime = 200\<rparr>]]) ranked \<and>
      [\<lparr>wallet = ''A'', lastTx = 200, volume = Finite 2\<rparr>] = take (nat 10) ranked)"
proof -
  let ?ups = "[Inr \<lparr>data = [\<lparr>owner = ''A'', blockTime = 100, changeAmount = 2000000000\<rparr>,
                   \<lparr>owner = ''A'', blockTime = 200, changeAmount = 1000000000\<rparr>], total = 2\<rparr>]"
  let ?pups = "[Inr [\<lparr>signer = [''A''], pt_blockTime = 100\<rparr>, \<lparr>signer = [''A''], pt_blockTime = 200\<rparr>]]"
  have l: "Some 10 = Some (10 :: int) \<and> (0 :: int) \<le> 10"
    by simp
  have 1: "fetchTopTraders (Some ''key'') (Some 10) ?ups
     = Some (Inr [\<lparr>wallet = ''A'', lastTx = 200, volume = Finite 3\<rparr>])"
    by (simp add: fetchTopTraders_def api_key_configured_def traders_init_def
          maxTransactionsToProcess_def pageSize_def traders_eval slice0_def)
  have 2: "fetchTopTraders_public (Some 10) ?pups
     = Some (Inr [\<lparr>wallet = ''A'', lastTx = 200, volume = Finite 2\<rparr>])"
    by (simp add: fetchTopTraders_public_def traders_public_init_def
          maxTransactionsToProcess_public_def pageSize_def traders_eval slice0_def)
  from traders_accumulate_sort_truncate [of "Some ''key''" "Some 10" ?ups
     "[\<lparr>wallet = ''A'', lastTx = 200, volume = Finite 3\<rparr>]" ?pups
     "[\<lparr>wallet = ''A'', lastTx = 200, volume = Finite 2\<rparr>]"] l 1 2
  show ?thesis
    by blast
qed

section \<open>The interval scan\<close>

lemma activity_holds_note:
  assumes "activity_holds obs aw"
  shows "activity_holds (obs @ [(w, t)]) (note_activity w t aw)"
  using assms
  unfolding activity_holds_def note_activity_def
  by (auto simp: distinct_map_set map_of_map_set times_of_def latest_snoc latest_def max_def)

lemma activity_holds_init: "activity_holds [] (activeWallets interval_init)"
  by (simp add: activity_holds_def interval_init_def times_of_def)

lemma observed_snoc:
  "observed from to (txs @ [tx]) =
     observed from to txs @
       (if js_le (int (blockTime tx)) to \<and> js_ge (int (blockTime tx)) from
        then [(owner tx, blockTime tx)] else [])"
  by (simp add: observed_def)

lemma observed_public_snoc:
  "observed_public to (txs @ [tx]) =
     observed_public to txs @
       (case first_signer tx of
          None \<Rightarrow> []
        | Some w \<Rightarrow> if js_le (int (pt_blockTime tx)) to then [(w, pt_blockTime tx)] else [])"
  by (simp add: observed_public_def)

lemma scan_page_activity:
  "activity_holds (observed from to (scanned st)) (activeWallets st) \<Longrightarrow>
   activity_holds (observed from to (scanned (scan_page from to txs st)))
     (activeWallets (scan_page from to txs st))"
proof (induction txs arbitrary: st)
  case Nil
  then show ?case by simp
next
  case (Cons tx txs)
  show ?case
  proof (cases "js_lt (int (blockTime tx)) from")
    case True
    with Cons.prems show ?thesis by simp
  next
    case False
    from Cons.prems
    have "activity_holds
        (observed from to (scanned st @ [tx]))
        (if js_le (int (blockTime tx)) to \<and> js_ge (int (blockTime tx)) from
         then note_activity (owner tx) (blockTime tx) (activeWallets st) else activeWallets st)"
      by (simp add: observed_snoc activity_holds_note)
    with False Cons.IH show ?thesis by simp
  qed
qed

lemma scan_page_public_activity:
  "activity_holds (observed_public to (scanned st)) (activeWallets st) \<Longrightarrow>
   activity_holds (observed_public to (scanned (scan_page_public from to txs st)))
     (activeWallets (scan_page_public from to txs st))"
proof (induction txs arbitrary: st)
  case Nil
  then show ?case by simp
next
  case (Cons tx txs)
  show ?case
  proof (cases "js_lt (int (pt_blockTime tx)) from")
    case True
    with Cons.prems show ?thesis by simp
  next
    case False
    from Cons.prems
    have "activity_holds
        (observed_public to (scanned st @ [tx]))
        (case first_signer tx of
           None \<Rightarrow> activeWallets st
         | Some w \<Rightarrow>
             if js_le (int (pt_blockTime tx)) to
             then note_activity w (pt_blockTime tx) (activeWallets st)
             else activeWallets st)"
      by (simp add: observed_public_snoc activity_holds_note split: option.splits)
    with False Cons.IH show ?thesis by simp
  qed
qed

text \<open>What one page does to the paging variables.\<close>

lemma scan_page_scanned:
  "scanned (scan_page from to txs st) =
     scanned st @ takeWhile (\<lambda>tx. \<not> js_lt (int (blockTime tx)) from) txs"
  by (induction txs arbitrary: st) simp_all

lemma scan_page_continue:
  "continueFetching (scan_page from to txs st) \<longleftrightarrow>
     continueFetching st \<and> (\<forall>tx \<in> set txs. \<not> js_lt (int (blockTime tx)) from)"
  by (induction txs arbitrary: st) auto

lemma scan_page_offset: "offset (scan_page from to txs st) = offset st"
  by (induction txs arbitrary: st) simp_all

lemma scan_page_public_scanned:
  "scanned (scan_page_public from to txs st) =
     scanned st @ takeWhile (\<lambda>tx. \<not> js_lt (int (pt_blockTime tx)) from) txs"
  by (induction txs arbitrary: st) simp_all

lemma scan_page_public_continue:
  "continueFetching (scan_page_public from to txs st) \<longleftrightarrow>
     continueFetching st \<and> (\<forall>tx \<in> set txs. \<not> js_lt (int (pt_blockTime tx)) from)"
  by (induction txs arbitrary: st) auto

lemma scan_page_public_offset: "offset (scan_page_public from to txs st) = offset st"
  by (induction txs arbitrary: st) simp_all

lemma interval_loop_Nil:
  assumes "interval_loop from to st [] = Some (Inr st')"
  shows "st' = st" and "\<not> continueFetching st"
  using assms by (simp_all split: if_splits)

lemma interval_loop_Inl:
  "interval_loop from to st (Inl e # rest) = Some (Inr st') \<Longrightarrow> st' = st \<and> \<not> continueFetching st"
  by (simp split: if_splits)

lemma interval_loop_Inr:
  assumes "interval_loop from to st (Inr page # rest) = Some (Inr st')"
  obtains (stop) "st' = st"
  | (last) "continueFetching st" and "data page \<noteq> []"
      and "st' = (scan_page from to (data page) st)\<lparr>offset := offset (scan_page from to (data page) st) + pageSize\<rparr>"
  | (more) "continueFetching st" and "data page \<noteq> []"
      and "interval_loop from to
             ((scan_page from to (data page) st)\<lparr>offset := offset (scan_page from to (data page) st) + pageSize\<rparr>)
             rest = Some (Inr st')"
proof (cases "continueFetching st \<and> data page \<noteq> []")
  case False
  with assms have "st' = st" by (cases "continueFetching st") simp_all
  then show ?thesis by (rule stop)
next
  case True
  show ?thesis
  proof (cases "int (offset (scan_page from to (data page) st) + pageSize) \<ge> total page")
    case True
    with \<open>continueFetching st \<and> data page \<noteq> []\<close> assms show ?thesis
      by (intro last) (simp_all add: Let_def)
  next
    case False
    with \<open>continueFetching st \<and> data page \<noteq> []\<close> assms show ?thesis
      by (intro more) (simp_all add: Let_def)
  qed
qed

lemma interval_public_loop_Nil:
  assumes "interval_public_loop from to st [] = Some (Inr st')"
  shows "st' = st" and "\<not> continueFetching st"
  using assms by (simp_all split: if_splits)

lemma interval_public_loop_Inl:
  "interval_public_loop from to st (Inl e # rest) = Some (Inr st') \<Longrightarrow> st' = st \<and> \<not> continueFetching st"
  by (simp split: if_splits)

lemma interval_public_loop_Inr:
  assumes "interval_public_loop from to st (Inr txs # rest) = Some (Inr st')"
  obtains (stop) "st' = st"
  | (last) "continueFetching st" and "txs \<noteq> []" and "st' = scan_page_public from to txs st"
  | (more) "continueFetching st" and "txs \<noteq> []"
      and "interval_public_loop from to
             ((scan_page_public from to txs st)\<lparr>offset := offset (scan_page_public from to txs st) + pageSize\<rparr>)
             rest = Some (Inr st')"
proof (cases "continueFetching st \<and> txs \<noteq> []")
  case False
  with assms have "st' = st" by (cases "continueFetching st") simp_all
  then show ?thesis by (rule stop)
next
  case True
  show ?thesis
  proof (cases "length txs < pageSize")
    case True
    with \<open>continueFetching st \<and> txs \<noteq> []\<close> assms show ?thesis
      by (intro last) (simp_all add: Let_def)
  next
    case False
    with \<open>continueFetching st \<and> txs \<noteq> []\<close> assms show ?thesis
      by (intro more) (simp_all add: Let_def)
  qed
qed

lemma interval_loop_activity:
  "interval_loop from to st ups = Some (Inr st') \<Longrightarrow>
   activity_holds (observed from to (scanned st)) (activeWallets st) \<Longrightarrow>
   activity_holds (observed from to (scanned st')) (activeWallets st')"
proof (induction ups arbitrary: st)
  case Nil
  from interval_loop_Nil(1) [OF Nil.prems(1)] Nil.prems(2) show ?case by simp
next
  case (Cons response rest)
  show ?case
  proof (cases response)
    case (Inl e)
    from Cons.prems(1) [unfolded Inl] have "st' = st" by (blast dest: interval_loop_Inl)
    with Cons.prems(2) show ?thesis by simp
  next
    case (Inr page)
    let ?st1 = "scan_page from to (data page) st"
    from Cons.prems(2)
    have 1: "activity_holds (observed from to (scanned ?st1)) (activeWallets ?st1)"
      by (rule scan_page_activity)
    from Cons.prems(1) [unfolded Inr] show ?thesis
    proof (cases rule: interval_loop_Inr)
      case stop
      with Cons.prems(2) show ?thesis by simp
    next
      case last
      with 1 show ?thesis by simp
    next
      case more
      from Cons.IH [OF more(3)] 1 show ?thesis by simp
    qed
  qed
qed

lemma interval_public_loop_activity:
  "interval_public_loop from to st ups = Some (Inr st') \<Longrightarrow>
   activity_holds (observed_public to (scanned st)) (activeWallets st) \<Longrightarrow>
   activity_holds (observed_public to (scanned st')) (activeWallets st')"
proof (induction ups arbitrary: st)
  case Nil
  from interval_public_loop_Nil(1) [OF Nil.prems(1)] Nil.prems(2) show ?case by simp
next
  case (Cons response rest)
  show ?case
  proof (cases response)
    case (Inl e)
    from Cons.prems(1) [unfolded Inl] have "st' = st" by (blast dest: interval_public_loop_Inl)
    with Cons.prems(2) show ?thesis by simp
  next
    case (Inr txs)
    let ?st1 = "scan_page_public from to txs st"
    from Cons.prems(2)
    have 1: "activity_holds (observed_public to (scanned ?st1)) (activeWallets ?st1)"
      by (rule scan_page_public_activity)
    from Cons.prems(1) [unfolded Inr] show ?thesis
    proof (cases rule: interval_public_loop_Inr)
      case stop
      with Cons.prems(2) show ?thesis by simp
    next
      case last
      with 1 show ?thesis by simp
    next
      case more
      from Cons.IH [OF more(3)] 1 show ?thesis by simp
    qed
  qed
qed

text \<open>
  The scanned records are an initial segment of the delivered ones, and when the time
  short-circuit has fired, the first record that was not scanned is older than \<open>from\<close>.
\<close>

lemma interval_loop_stream:
  "interval_loop from to st ups = Some (Inr st') \<Longrightarrow> continueFetching st \<Longrightarrow>
   \<exists>rest. scanned st @ delivered ups = scanned st' @ rest \<and>
     (\<not> continueFetching st' \<longrightarrow> rest \<noteq> [] \<and> js_lt (int (blockTime (hd rest))) from)"
proof (induction ups arbitrary: st)
  case Nil
  from interval_loop_Nil(2) [OF Nil.prems(1)] Nil.prems(2) show ?case by simp
next
  case (Cons response rest)
  show ?case
  proof (cases response)
    case (Inl e)
    from Cons.prems(1) [unfolded Inl] have "\<not> continueFetching st" by (blast dest: interval_loop_Inl)
    with Cons.prems(2) show ?thesis by simp
  next
    case (Inr page)
    let ?P = "\<lambda>tx. \<not> js_lt (int (blockTime tx)) from"
    let ?st1 = "scan_page from to (data page) st"
    let ?st2 = "?st1\<lparr>offset := offset ?st1 + pageSize\<rparr>"
    have d: "delivered (response # rest) = data page @ delivered rest"
      by (simp add: delivered_def Inr)
    have sc: "scanned ?st2 = scanned st @ takeWhile ?P (data page)"
      by (simp add: scan_page_scanned)
    have co: "continueFetching ?st2 \<longleftrightarrow> (\<forall>tx \<in> set (data page). ?P tx)"
      using Cons.prems(2) by (simp add: scan_page_continue)
    have fired: "\<exists>r. scanned st @ delivered (response # rest) = scanned ?st2 @ r \<and>
        (\<not> continueFetching ?st2 \<longrightarrow> r \<noteq> [] \<and> js_lt (int (blockTime (hd r))) from)"
    proof (intro exI conjI impI)
      show "scanned st @ delivered (response # rest)
          = scanned ?st2 @ (dropWhile ?P (data page) @ delivered rest)"
        by (simp add: d sc)
      assume "\<not> continueFetching ?st2"
      with co have ne: "dropWhile ?P (data page) \<noteq> []"
        by simp
      then show "dropWhile ?P (data page) @ delivered rest \<noteq> []"
        by simp
      from ne have "\<not> ?P (hd (dropWhile ?P (data page)))"
        by (rule hd_dropWhile)
      with ne show "js_lt (int (blockTime (hd (dropWhile ?P (data page) @ delivered rest)))) from"
        by simp
    qed
    from Cons.prems(1) [unfolded Inr] show ?thesis
    proof (cases rule: interval_loop_Inr)
      case stop
      with Cons.prems(2) show ?thesis by simp
    next
      case last
      with fired show ?thesis by (simp only:)
    next
      case more
      show ?thesis
      proof (cases "continueFetching ?st2")
        case True
        with co have "takeWhile ?P (data page) = data page"
          by simp
        with sc have sc2: "scanned ?st2 = scanned st @ data page"
          by simp
        from Cons.IH [OF more(3) True] obtain r
          where "scanned ?st2 @ delivered rest = scanned st' @ r"
            and "\<not> continueFetching st' \<longrightarrow> r \<noteq> [] \<and> js_lt (int (blockTime (hd r))) from"
          by blast
        with sc2 d show ?thesis by auto
      next
        case False
        with more(3) have "st' = ?st2"
          by (cases rest) simp_all
        with fired show ?thesis by (simp only:)
      qed
    qed
  qed
qed

lemma interval_public_loop_stream:
  "interval_public_loop from to st ups = Some (Inr st') \<Longrightarrow> continueFetching st \<Longrightarrow>
   \<exists>rest. scanned st @ delivered_public ups = scanned st' @ rest \<and>
     (\<not> continueFetching st' \<longrightarrow> rest \<noteq> [] \<and> js_lt (int (pt_blockTime (hd rest))) from)"
proof (induction ups arbitrary: st)
  case Nil
  from interval_public_loop_Nil(2) [OF Nil.prems(1)] Nil.prems(2) show ?case by simp
next
  case (Cons response rest)
  show ?case
  proof (cases response)
    case (Inl e)
    from Cons.prems(1) [unfolded Inl] have "\<not> continueFetching st" by (blast dest: interval_public_loop_Inl)
    with Cons.prems(2) show ?thesis by simp
  next
    case (Inr txs)
    let ?P = "\<lambda>tx. \<not> js_lt (int (pt_blockTime tx)) from"
    let ?st1 = "scan_page_public from to (txs) st"
    let ?st2 = "?st1\<lparr>offset := offset ?st1 + pageSize\<rparr>"
    have sc1: "scanned ?st1 = scanned ?st2" and co1: "continueFetching ?st1 = continueFetching ?st2"
      by simp_all
    have d: "delivered_public (response # rest) = txs @ delivered_public rest"
      by (simp add: delivered_public_def Inr)
    have sc: "scanned ?st2 = scanned st @ takeWhile ?P (txs)"
      by (simp add: scan_page_public_scanned)
    have co: "continueFetching ?st2 \<longleftrightarrow> (\<forall>tx \<in> set (txs). ?P tx)"
      using Cons.prems(2) by (simp add: scan_page_public_continue)
    have fired: "\<exists>r. scanned st @ delivered_public (response # rest) = scanned ?st2 @ r \<and>
        (\<not> continueFetching ?st2 \<longrightarrow> r \<noteq> [] \<and> js_lt (int (pt_blockTime (hd r))) from)"
    proof (intro exI conjI impI)
      show "scanned st @ delivered_public (response # rest)
          = scanned ?st2 @ (dropWhile ?P (txs) @ delivered_public rest)"
        by (simp add: d sc)
      assume "\<not> continueFetching ?st2"
      with co have ne: "dropWhile ?P (txs) \<noteq> []"
        by simp
      then show "dropWhile ?P (txs) @ delivered_public rest \<noteq> []"
        by simp
      from ne have "\<not> ?P (hd (dropWhile ?P (txs)))"
        by (rule hd_dropWhile)
      with ne show "js_lt (int (pt_blockTime (hd (dropWhile ?P (txs) @ delivered_public rest)))) from"
        by simp
    qed
    from Cons.prems(1) [unfolded Inr] show ?thesis
    proof (cases rule: interval_public_loop_Inr)
      case stop
      with Cons.prems(2) show ?thesis by simp
    next
      case last
      with fired show ?thesis unfolding sc1 [symmetric] co1 [symmetric] by (simp only:)
    next
      case more
      show ?thesis
      proof (cases "continueFetching ?st2")
        case True
        with co have "takeWhile ?P (txs) = txs"
          by simp
        with sc have sc2: "scanned ?st2 = scanned st @ txs"
          by simp
        from Cons.IH [OF more(3) True] obtain r
          where "scanned ?st2 @ delivered_public rest = scanned st' @ r"
            and "\<not> continueFetching st' \<longrightarrow> r \<noteq> [] \<and> js_lt (int (pt_blockTime (hd r))) from"
          by blast
        with sc2 d show ?thesis by auto
      next
        case False
        with more(3) have "st' = ?st2"
          by (cases rest) simp_all
        with fired show ?thesis by (simp only:)
      qed
    qed
  qed
qed

lemma activity_holds_rows:
  assumes "activity_holds obs aw"
  shows "distinct (map wallet (active_rows aw))"
    and "set (map wallet (active_rows aw)) = {w. times_of w obs \<noteq> []}"
    and "\<forall>r \<in> set (active_rows aw). lastTx r = Max (set (times_of (wallet r) obs))"
proof -
  from assms have d: "distinct (map fst aw)"
    and m: "\<And>w. map_of aw w =
        (if times_of w obs = [] then None else Some \<lparr>acc_lastTx = latest (times_of w obs)\<rparr>)"
    by (simp_all add: activity_holds_def)
  have keys: "map wallet (active_rows aw) = map fst aw"
    unfolding active_rows_def by (induction aw) auto
  from d show "distinct (map wallet (active_rows aw))"
    by (simp only: keys)
  have "set (map fst aw) = dom (map_of aw)"
    by (simp add: dom_map_of_conv_image_fst)
  also have "\<dots> = {w. times_of w obs \<noteq> []}"
    by (auto simp: m dom_def)
  finally show "set (map wallet (active_rows aw)) = {w. times_of w obs \<noteq> []}"
    by (simp only: keys)
  show "\<forall>r \<in> set (active_rows aw). lastTx r = Max (set (times_of (wallet r) obs))"
  proof
    fix r assume "r \<in> set (active_rows aw)"
    then obtain w e where we: "(w, e) \<in> set aw"
      and r: "r = \<lparr>wallet = w, lastTx = acc_lastTx e\<rparr>"
      by (auto simp: active_rows_def)
    from we d have "map_of aw w = Some e" by simp
    with m [of w] have ne: "times_of w obs \<noteq> []"
      and e: "e = \<lparr>acc_lastTx = latest (times_of w obs)\<rparr>"
      by (simp_all split: if_splits)
    from ne have "latest (times_of w obs) = Max (set (times_of w obs))"
      by (rule latest_Max)
    with r e show "lastTx r = Max (set (times_of (wallet r) obs))" by simp
  qed
qed

lemma times_of_observed:
  "times_of w (observed (Some f) (Some t) txs) = map blockTime (records_of w (window_records f t txs))"
  by (induction txs)
     (auto simp: times_of_def observed_def records_of_def window_records_def in_window_def
                 js_le_def js_ge_def)

lemma times_of_observed_public:
  "\<forall>tx \<in> set txs. \<not> js_lt (int (pt_blockTime tx)) (Some f) \<Longrightarrow>
   times_of w (observed_public (Some t) txs)
     = map pt_blockTime (signed_by w (window_records_public f t txs))"
  by (induction txs)
     (auto simp: times_of_def observed_public_def signed_by_def window_records_public_def
                 in_window_def js_le_def js_lt_def split: option.splits)

lemma interval_public_loop_not_older:
  "interval_public_loop from to st ups = Some (Inr st') \<Longrightarrow>
   \<forall>tx \<in> set (scanned st). \<not> js_lt (int (pt_blockTime tx)) from \<Longrightarrow>
   \<forall>tx \<in> set (scanned st'). \<not> js_lt (int (pt_blockTime tx)) from"
proof (induction ups arbitrary: st)
  case Nil
  from interval_public_loop_Nil(1) [OF Nil.prems(1)] Nil.prems(2) show ?case by simp
next
  case (Cons response rest)
  show ?case
  proof (cases response)
    case (Inl e)
    from Cons.prems(1) [unfolded Inl] have "st' = st" by (blast dest: interval_public_loop_Inl)
    with Cons.prems(2) show ?thesis by simp
  next
    case (Inr txs)
    let ?st1 = "scan_page_public from to txs st"
    from Cons.prems(2)
    have 1: "\<forall>tx \<in> set (scanned ?st1). \<not> js_lt (int (pt_blockTime tx)) from"
      by (auto simp: scan_page_public_scanned dest: set_takeWhileD)
    from Cons.prems(1) [unfolded Inr] show ?thesis
    proof (cases rule: interval_public_loop_Inr)
      case stop
      with Cons.prems(2) show ?thesis by simp
    next
      case last
      with 1 show ?thesis by simp
    next
      case more
      from Cons.IH [OF more(3)] 1 show ?thesis by simp
    qed
  qed
qed

lemma older_rest_outside_window:
  fixes key :: "'a \<Rightarrow> nat"
  assumes "sorted_wrt (\<lambda>a b. key b \<le> key a) (xs @ rest)"
    and "rest \<noteq> []" and "js_lt (int (key (hd rest))) (Some f)"
  shows "filter (\<lambda>x. in_window f t (key x)) (xs @ rest) = filter (\<lambda>x. in_window f t (key x)) xs"
proof -
  from assms(2) obtain h tl where rest: "rest = h # tl"
    by (cases rest) auto
  from assms(1) have "sorted_wrt (\<lambda>a b. key b \<le> key a) rest"
    by (simp add: sorted_wrt_append)
  with rest have "\<forall>x \<in> set rest. key x \<le> key h"
    by auto
  with assms(3) rest have "\<forall>x \<in> set rest. \<not> in_window f t (key x)"
    by (auto simp: js_lt_def in_window_def)
  then have "filter (\<lambda>x. in_window f t (key x)) rest = []"
    by (simp add: filter_empty_conv)
  then show ?thesis by simp
qed

lemma fetchActiveWallets_Inr:
  assumes "fetchActiveWallets key from to ups = Some (Inr out)"
  obtains st where "interval_loop from to interval_init ups = Some (Inr st)"
    and "out = active_rows (activeWallets st)"
    and "interval_scanned from to ups = scanned st"
    and "short_circuited (interval_loop from to interval_init ups) \<longleftrightarrow> \<not> continueFetching st"
  using assms
  by (auto simp: fetchActiveWallets_def interval_scanned_def final_scanned_def short_circuited_def
           split: option.splits sum.splits if_splits)

lemma fetchActiveWallets_public_Inr:
  assumes "fetchActiveWallets_public from to ups = Some (Inr out)"
  obtains st where "interval_public_loop from to interval_init ups = Some (Inr st)"
    and "out = active_rows (activeWallets st)"
    and "interval_public_scanned from to ups = scanned st"
    and "short_circuited (interval_public_loop from to interval_init ups) \<longleftrightarrow> \<not> continueFetching st"
  using assms
  by (auto simp: fetchActiveWallets_public_def interval_public_scanned_def final_scanned_def
           short_circuited_def split: option.splits sum.splits)

lemma interval_init_simps:
  "scanned interval_init = []" "continueFetching interval_init" "activeWallets interval_init = []"
  by (simp_all add: interval_init_def)

section \<open>Interval aggregation: the wallets active in the window\<close>

text \<open>
  Claim C2. When the interval aggregation returns for the bounds \<open>f\<close> and \<open>t\<close>, a
  wallet is in the result if and only if one of the scanned records with
  \<open>f \<le> blockTime \<le> t\<close> is its own, and its \<open>lastTx\<close> is the largest block time of its
  scanned records in the window. The scanned records are an initial segment of the
  delivered ones. When the time short-circuit has fired and the delivered records are in
  descending order of the block time, the records in the window among all delivered records
  are those among the scanned ones: the short-circuit has left out no record of the window.
  (The public version takes the wallet of a record to be its first signer, if there is one.)
\<close>

theorem interval_window_activity:
  "(fetchActiveWallets key (Some f) (Some t) ups = Some (Inr out) \<longrightarrow>
      set (map wallet out) = set (map owner (window_records f t (interval_scanned (Some f) (Some t) ups))) \<and>
      (\<forall>r \<in> set out.
         lastTx r = Max (set (map blockTime
           (records_of (wallet r) (window_records f t (interval_scanned (Some f) (Some t) ups)))))) \<and>
      (\<exists>rest. delivered ups = interval_scanned (Some f) (Some t) ups @ rest) \<and>
      (short_circuited (interval_loop (Some f) (Some t) interval_init ups) \<and>
       sorted_wrt (\<lambda>a b. blockTime b \<le> blockTime a) (delivered ups) \<longrightarrow>
         window_records f t (delivered ups)
           = window_records f t (interval_scanned (Some f) (Some t) ups))) \<and>
   (fetchActiveWallets_public (Some f) (Some t) pups = Some (Inr pout) \<longrightarrow>
      set (map wallet pout)
        = {w. \<exists>tx \<in> set (window_records_public f t (interval_public_scanned (Some f) (Some t) pups)).
                first_signer tx = Some w} \<and>
      (\<forall>r \<in> set pout.
         lastTx r = Max (set (map pt_blockTime
           (signed_by (wallet r)
              (window_records_public f t (interval_public_scanned (Some f) (Some t) pups)))))) \<and>
      (\<exists>rest. delivered_public pups = interval_public_scanned (Some f) (Some t) pups @ rest) \<and>
      (short_circuited (interval_public_loop (Some f) (Some t) interval_init pups) \<and>
       sorted_wrt (\<lambda>a b. pt_blockTime b \<le> pt_blockTime a) (delivered_public pups) \<longrightarrow>
         window_records_public f t (delivered_public pups)
           = window_records_public f t (interval_public_scanned (Some f) (Some t) pups)))"
proof (intro conjI impI)
  assume a: "fetchActiveWallets key (Some f) (Some t) ups = Some (Inr out)"
  then obtain st where st: "interval_loop (Some f) (Some t) interval_init ups = Some (Inr st)"
    and out: "out = active_rows (activeWallets st)"
    and sc: "interval_scanned (Some f) (Some t) ups = scanned st"
    and fired: "short_circuited (interval_loop (Some f) (Some t) interval_init ups)
                  \<longleftrightarrow> \<not> continueFetching st"
    by (blast elim: fetchActiveWallets_Inr)
  let ?obs = "observed (Some f) (Some t) (scanned st)"
  have "activity_holds (observed (Some f) (Some t) (scanned interval_init)) (activeWallets interval_init)"
    by (simp add: interval_init_simps observed_def activity_holds_def times_of_def)
  from interval_loop_activity [OF st this]
  have h: "activity_holds ?obs (activeWallets st)" .
  have t: "times_of w ?obs = map blockTime (records_of w (window_records f t (scanned st)))" for w
    by (rule times_of_observed)
  from activity_holds_rows(2) [OF h]
  have "set (map wallet out) = {w. records_of w (window_records f t (scanned st)) \<noteq> []}"
    by (simp add: out t)
  also have "\<dots> = set (map owner (window_records f t (scanned st)))"
    by (auto simp: records_of_def filter_empty_conv)
  finally have 1: "set (map wallet out) = set (map owner (window_records f t (scanned st)))" .
  from activity_holds_rows(3) [OF h]
  have 2: "\<forall>r \<in> set out.
         lastTx r = Max (set (map blockTime (records_of (wallet r) (window_records f t (scanned st)))))"
    by (simp add: out t)
  from interval_loop_stream [OF st] obtain rest
    where p: "delivered ups = scanned st @ rest"
      and q: "\<not> continueFetching st \<longrightarrow> rest \<noteq> [] \<and> js_lt (int (blockTime (hd rest))) (Some f)"
    by (auto simp: interval_init_simps)
  have 4: "window_records f t (delivered ups) = window_records f t (scanned st)"
    if "\<not> continueFetching st" and "sorted_wrt (\<lambda>a b. blockTime b \<le> blockTime a) (delivered ups)"
    using that q unfolding window_records_def p
    by (intro older_rest_outside_window) simp_all
  from 1 show "set (map wallet out)
      = set (map owner (window_records f t (interval_scanned (Some f) (Some t) ups)))"
    by (simp only: sc)
  from 2 show "\<forall>r \<in> set out.
         lastTx r = Max (set (map blockTime
           (records_of (wallet r) (window_records f t (interval_scanned (Some f) (Some t) ups)))))"
    by (simp only: sc)
  from p show "\<exists>rest. delivered ups = interval_scanned (Some f) (Some t) ups @ rest"
    unfolding sc by blast
  assume "short_circuited (interval_loop (Some f) (Some t) interval_init ups) \<and>
       sorted_wrt (\<lambda>a b. blockTime b \<le> blockTime a) (delivered ups)"
  with fired 4 show "window_records f t (delivered ups)
           = window_records f t (interval_scanned (Some f) (Some t) ups)"
    unfolding sc by blast
next
  assume a: "fetchActiveWallets_public (Some f) (Some t) pups = Some (Inr pout)"
  then obtain st where st: "interval_public_loop (Some f) (Some t) interval_init pups = Some (Inr st)"
    and out: "pout = active_rows (activeWallets st)"
    and sc: "interval_public_scanned (Some f) (Some t) pups = scanned st"
    and fired: "short_circuited (interval_public_loop (Some f) (Some t) interval_init pups)
                  \<longleftrightarrow> \<not> continueFetching st"
    by (blast elim: fetchActiveWallets_public_Inr)
  let ?obs = "observed_public (Some t) (scanned st)"
  have "activity_holds (observed_public (Some t) (scanned interval_init)) (activeWallets interval_init)"
    by (simp add: interval_init_simps observed_public_def activity_holds_def times_of_def)
  from interval_public_loop_activity [OF st this]
  have h: "activity_holds ?obs (activeWallets st)" .
  have "\<forall>tx \<in> set (scanned st). \<not> js_lt (int (pt_blockTime tx)) (Some f)"
    by (rule interval_public_loop_not_older [OF st]) (simp add: interval_init_simps)
  then have t: "times_of w ?obs
      = map pt_blockTime (signed_by w (window_records_public f t (scanned st)))" for w
    by (rule times_of_observed_public)
  from activity_holds_rows(2) [OF h]
  have "set (map wallet pout) = {w. signed_by w (window_records_public f t (scanned st)) \<noteq> []}"
    by (simp add: out t)
  also have "\<dots> = {w. \<exists>tx \<in> set (window_records_public f t (scanned st)). first_signer tx = Some w}"
    by (auto simp: signed_by_def filter_empty_conv)
  finally have 1: "set (map wallet pout)
      = {w. \<exists>tx \<in> set (window_records_public f t (scanned st)). first_signer tx = Some w}" .
  from activity_holds_rows(3) [OF h]
  have 2: "\<forall>r \<in> set pout.
         lastTx r = Max (set (map pt_blockTime
           (signed_by (wallet r) (window_records_public f t (scanned st)))))"
    by (simp add: out t)
  from interval_public_loop_stream [OF st] obtain rest
    where p: "delivered_public pups = scanned st @ rest"
      and q: "\<not> continueFetching st \<longrightarrow> rest \<noteq> [] \<and> js_lt (int (pt_blockTime (hd rest))) (Some f)"
    by (auto simp: interval_init_simps)
  have 4: "window_records_public f t (delivered_public pups) = window_records_public f t (scanned st)"
    if "\<not> continueFetching st"
      and "sorted_wrt (\<lambda>a b. pt_blockTime b \<le> pt_blockTime a) (delivered_public pups)"
    using that q unfolding window_records_public_def p
    by (intro older_rest_outside_window) simp_all
  from 1 show "set (map wallet pout)
        = {w. \<exists>tx \<in> set (window_records_public f t (interval_public_scanned (Some f) (Some t) pups)).
                first_signer tx = Some w}"
    by (simp only: sc)
  from 2 show "\<forall>r \<in> set pout.
         lastTx r = Max (set (map pt_blockTime
           (signed_by (wallet r)
              (window_records_public f t (interval_public_scanned (Some f) (Some t) pups)))))"
    by (simp only: sc)
  from p show "\<exists>rest. delivered_public pups = interval_public_scanned (Some f) (Some t) pups @ rest"
    unfolding sc by blast
  assume "short_circuited (interval_public_loop (Some f) (Some t) interval_init pups) \<and>
       sorted_wrt (\<lambda>a b. pt_blockTime b \<le> pt_blockTime a) (delivered_public pups)"
  with fired 4 show "window_records_public f t (delivered_public pups)
           = window_records_public f t (interval_public_scanned (Some f) (Some t) pups)"
    unfolding sc by blast
qed

theorem interval_window_activity_witness:
  "fetchActiveWallets (Some ''key'') (Some 100) (Some 150)
     [Inr \<lparr>data = [\<lparr>owner = ''B'', blockTime = 120, changeAmount = 5\<rparr>,
                   \<lparr>owner = ''B'', blockTime = 90, changeAmount = 7\<rparr>], total = 2\<rparr>]
     = Some (Inr [\<lparr>wallet = ''B'', lastTx = 120\<rparr>]) \<and>
   window_records 100 150
     (delivered [Inr \<lparr>data = [\<lparr>owner = ''B'', blockTime = 120, changeAmount = 5\<rparr>,
                   \<lparr>owner = ''B'', blockTime = 90, changeAmount = 7\<rparr>], total = 2\<rparr>])
     = window_records 100 150
         (interval_scanned (Some 100) (Some 150)
            [Inr \<lparr>data = [\<lparr>owner = ''B'', blockTime = 120, changeAmount = 5\<rparr>,
                   \<lparr>owner = ''B'', blockTime = 90, changeAmount = 7\<rparr>], total = 2\<rparr>]) \<and>
   fetchActiveWallets_public (Some 100) (Some 150)
     [Inr [\<lparr>signer = [''B''], pt_blockTime = 120\<rparr>, \<lparr>signer = [''B''], pt_blockTime = 90\<rparr>]]
     = Some (Inr [\<lparr>wallet = ''B'', lastTx = 120\<rparr>]) \<and>
   window_records_public 100 150
     (delivered_public [Inr [\<lparr>signer = [''B''], pt_blockTime = 120\<rparr>, \<lparr>signer = [''B''], pt_blockTime = 90\<rparr>]])
     = window_records_public 100 150
         (interval_public_scanned (Some 100) (Some 150)
            [Inr [\<lparr>signer = [''B''], pt_blockTime = 120\<rparr>, \<lparr>signer = [''B''], pt_blockTime = 90\<rparr>]])"
proof -
  let ?ups = "[Inr \<lparr>data = [\<lparr>owner = ''B'', blockTime = 120, changeAmount = 5\<rparr>,
                   \<lparr>owner = ''B'', blockTime = 90, changeAmount = 7\<rparr>], total = 2\<rparr>]"
  let ?pups = "[Inr [\<lparr>signer = [''B''], pt_blockTime = 120\<rparr>, \<lparr>signer = [''B''], pt_blockTime = 90\<rparr>]]"
  have 1: "fetchActiveWallets (Some ''key'') (Some 100) (Some 150) ?ups
      = Some (Inr [\<lparr>wallet = ''B'', lastTx = 120\<rparr>])"
    by (simp add: fetchActiveWallets_def api_key_configured_def interval_init_def pageSize_def
          js_lt_def js_le_def js_ge_def note_activity_def active_rows_def)
  have 2: "short_circuited (interval_loop (Some 100) (Some 150) interval_init ?ups)"
    by (simp add: short_circuited_def interval_init_def pageSize_def
          js_lt_def js_le_def js_ge_def note_activity_def)
  have 3: "sorted_wrt (\<lambda>a b. blockTime b \<le> blockTime a) (delivered ?ups)"
    by (simp add: delivered_def)
  have 4: "fetchActiveWallets_public (Some 100) (Some 150) ?pups
      = Some (Inr [\<lparr>wallet = ''B'', lastTx = 120\<rparr>])"
    by (simp add: fetchActiveWallets_public_def interval_init_def pageSize_def first_signer_def
          js_lt_def js_le_def note_activity_def active_rows_def)
  have 5: "short_circuited (interval_public_loop (Some 100) (Some 150) interval_init ?pups)"
    by (simp add: short_circuited_def interval_init_def pageSize_def first_signer_def
          js_lt_def js_le_def note_activity_def)
  have 6: "sorted_wrt (\<lambda>a b. pt_blockTime b \<le> pt_blockTime a) (delivered_public ?pups)"
    by (simp add: delivered_public_def)
  from interval_window_activity [of "Some ''key''" 100 150 ?ups "[\<lparr>wallet = ''B'', lastTx = 120\<rparr>]"
      ?pups "[\<lparr>wallet = ''B'', lastTx = 120\<rparr>]"] 1 2 3 4 5 6
  show ?thesis
    by blast
qed

section \<open>The holder rows\<close>















section \<open>Holder aggregation: the floor and the length of the result\<close>



section \<open>Slices of the rankings\<close>

lemma slice0_take: "\<exists>n. slice0 limit xs = take n xs"
  by (cases limit) (auto simp: slice0_def intro: exI [of _ 0])

lemma distinct_wallets_slice0:
  assumes "distinct (map wallet xs)"
  shows "distinct (map wallet (slice0 limit xs))"
proof -
  obtain n where "slice0 limit xs = take n xs"
    using slice0_take by blast
  with assms show ?thesis
    by (simp add: take_map [symmetric])
qed

section \<open>One row per wallet\<close>

text \<open>
  Claim C5, as amended. The results of the trader and of the interval aggregations hold
  every wallet address at most once, whatever the pages and the parameters: these
  aggregations keep one accumulator entry per wallet and merge each observation into it.
\<close>

theorem traders_and_interval_wallets_unique:
  "(fetchTopTraders key limit ups = Some (Inr out) \<longrightarrow> distinct (map wallet out)) \<and>
   (fetchTopTraders_public limit pups = Some (Inr pout) \<longrightarrow> distinct (map wallet pout)) \<and>
   (fetchActiveWallets key from to ups = Some (Inr aout) \<longrightarrow> distinct (map wallet aout)) \<and>
   (fetchActiveWallets_public from to pups = Some (Inr paout) \<longrightarrow> distinct (map wallet paout))"
proof (intro conjI impI)
  assume "fetchTopTraders key limit ups = Some (Inr out)"
  then obtain st where st: "traders_loop traders_init ups = Some (Inr st)"
    and out: "out = slice0 limit (sortedTraders (walletVolumes st))"
    by (blast elim: fetchTopTraders_Inr)
  from traders_loop_volumes [OF st volumes_hold_init]
  have "ranked_by_volume (scanned st) (sortedTraders (walletVolumes st))"
    by (rule volumes_hold_ranked)
  then have "distinct (map wallet (sortedTraders (walletVolumes st)))"
    by (simp add: ranked_by_volume_def)
  then show "distinct (map wallet out)"
    unfolding out by (rule distinct_wallets_slice0)
next
  assume "fetchTopTraders_public limit pups = Some (Inr pout)"
  then obtain st where st: "traders_public_loop traders_public_init pups = Some (Inr st)"
    and out: "pout = slice0 limit (sortedTraders_public (walletCounts st))"
    by (blast elim: fetchTopTraders_public_Inr)
  from traders_public_loop_counts [OF st counts_hold_init]
  have "ranked_by_count (scanned st) (sortedTraders_public (walletCounts st))"
    by (rule counts_hold_ranked)
  then have "distinct (map wallet (sortedTraders_public (walletCounts st)))"
    by (simp add: ranked_by_count_def)
  then show "distinct (map wallet pout)"
    unfolding out by (rule distinct_wallets_slice0)
next
  assume "fetchActiveWallets key from to ups = Some (Inr aout)"
  then obtain st where st: "interval_loop from to interval_init ups = Some (Inr st)"
    and out: "aout = active_rows (activeWallets st)"
    by (blast elim: fetchActiveWallets_Inr)
  have "activity_holds (observed from to (scanned interval_init)) (activeWallets interval_init)"
    by (simp add: interval_init_simps observed_def activity_holds_def times_of_def)
  from interval_loop_activity [OF st this] show "distinct (map wallet aout)"
    unfolding out by (rule activity_holds_rows(1))
next
  assume "fetchActiveWallets_public from to pups = Some (Inr paout)"
  then obtain st where st: "interval_public_loop from to interval_init pups = Some (Inr st)"
    and out: "paout = active_rows (activeWallets st)"
    by (blast elim: fetchActiveWallets_public_Inr)
  have "activity_holds (observed_public to (scanned interval_init)) (activeWallets interval_init)"
    by (simp add: interval_init_simps observed_public_def activity_holds_def times_of_def)
  from interval_public_loop_activity [OF st this] show "distinct (map wallet paout)"
    unfolding out by (rule activity_holds_rows(1))
qed

theorem traders_and_interval_wallets_unique_witness:
  "fetchTopTraders (Some ''key'') (Some 10)
     [Inr \<lparr>data = [\<lparr>owner = ''A'', blockTime = 100, changeAmount = 2000000000\<rparr>,
                   \<lparr>owner = ''A'', blockTime = 200, changeAmount = 1000000000\<rparr>], total = 2\<rparr>]
     = Some (Inr [\<lparr>wallet = ''A'', lastTx = 200, volume = Finite 3\<rparr>]) \<and>
   distinct (map wallet [\<lparr>wallet = ''A'', lastTx = 200 :: nat, volume = Finite 3\<rparr>]) \<and>
   fetchTopTraders_public (Some 10)
     [Inr [\<lparr>signer = [''A''], pt_blockTime = 100\<rparr>, \<lparr>signer = [''A''], pt_blockTime = 200\<rparr>]]
     = Some (Inr [\<lparr>wallet = ''A'', lastTx = 200, volume = Finite 2\<rparr>]) \<and>
   distinct (map wallet [\<lparr>wallet = ''A'', lastTx = 200 :: nat, volume = Finite 2\<rparr>]) \<and>
   fetchActiveWallets (Some ''key'') (Some 100) (Some 300)
     [Inr \<lparr>data = [\<lparr>owner = ''A'', blockTime = 100, changeAmount = 2000000000\<rparr>,
                   \<lparr>owner = ''A'', blockTime = 200, changeAmount = 1000000000\<rparr>], total = 2\<rparr>]
     = Some (Inr [\<lparr>wallet = ''A'', lastTx = 200\<rparr>]) \<and>
   fetchActiveWallets_public (Some 100) (Some 300)
     [Inr [\<lparr>signer = [''A''], pt_blockTime = 100\<rparr>, \<lparr>signer = [''A''], pt_blockTime = 200\<rparr>]]
     = Some (Inr [\<lparr>wallet = ''A'', lastTx = 200\<rparr>]) \<and>
   distinct (map wallet [\<lparr>wallet = ''A'', lastTx = 200 :: nat\<rparr>])"
proof -
  let ?ups = "[Inr \<lparr>data = [\<lparr>owner = ''A'', blockTime = 100, changeAmount = 2000000000\<rparr>,
                   \<lparr>owner = ''A'', blockTime = 200, changeAmount = 1000000000\<rparr>], total = 2\<rparr>]"
  let ?pups = "[Inr [\<lparr>signer = [''A''], pt_blockTime = 100\<rparr>, \<lparr>signer = [''A''], pt_blockTime = 200\<rparr>]]"
  have 1: "fetchTopTraders (Some ''key'') (Some 10) ?ups
      = Some (Inr [\<lparr>wallet = ''A'', lastTx = 200, volume = Finite 3\<rparr>])"
    by (simp add: fetchTopTraders_def api_key_configured_def traders_init_def
          maxTransactionsToProcess_def pageSize_def traders_eval slice0_def)
  have 2: "fetchTopTraders_public (Some 10) ?pups
      = Some (Inr [\<lparr>wallet = ''A'', lastTx = 200, volume = Finite 2\<rparr>])"
    by (simp add: fetchTopTraders_public_def traders_public_init_def 
          maxTransactionsToProcess_public_def pageSize_def traders_eval slice0_def)
  have 3: "fetchActiveWallets (Some ''key'') (Some 100) (Some 300) ?ups
      = Some (Inr [\<lparr>wallet = ''A'', lastTx = 200\<rparr>])"
    by (simp add: fetchActiveWallets_def api_key_configured_def interval_init_def pageSize_def
          js_lt_def js_le_def js_ge_def note_activity_def active_rows_def)
  have 4: "fetchActiveWallets_public (Some 100) (Some 300) ?pups
      = Some (Inr [\<lparr>wallet = ''A'', lastTx = 200\<rparr>])"
    by (simp add: fetchActiveWallets_public_def interval_init_def pageSize_def first_signer_def
          js_lt_def js_le_def note_activity_def active_rows_def)
  from traders_and_interval_wallets_unique [of "Some ''key''" "Some 10" ?ups
      "[\<lparr>wallet = ''A'', lastTx = 200, volume = Finite 3\<rparr>]" ?pups
      "[\<lparr>wallet = ''A'', lastTx = 200, volume = Finite 2\<rparr>]" "Some 100" "Some 300"
      "[\<lparr>wallet = ''A'', lastTx = 200\<rparr>]" "[\<lparr>wallet = ''A'', lastTx = 200\<rparr>]"] 1 2 3 4
  show ?thesis
    by blast
qed

text \<open>
  The holder aggregation has no accumulator: it appends one row for every record at or
  above the floor. An upstream that lists two token accounts of one owner yields two rows
  with the same wallet.
\<close>

theorem holders_repeat_wallet:
  "fetchHolders (Some ''key'') (Some 10) (Some 0)
     [Inr \<lparr>data = [\<lparr>holder_owner = ''A'', uiAmount = 50\<rparr>, \<lparr>holder_owner = ''A'', uiAmount = 60\<rparr>], total = 2\<rparr>]
     = Some (Inr [\<lparr>wallet = ''A'', amount = 50\<rparr>, \<lparr>wallet = ''A'', amount = 60\<rparr>]) \<and>
   \<not> distinct (map wallet [\<lparr>wallet = ''A'', amount = 50\<rparr>, \<lparr>wallet = ''A'', amount = 60 :: rat\<rparr>])"
  by (simp add: fetchHolders_def api_key_configured_def holders_init_def pageSize_def
        js_lt_def js_ge_def filteredHolders_def holder_rows_def slice0_def)

section \<open>Bounds on the trader scan\<close>

lemma traders_loop_bound:
  "traders_loop st ups = Some (Inr st') \<Longrightarrow>
   \<forall>page. Inr page \<in> set ups \<longrightarrow> length (data page) \<le> n \<Longrightarrow>
   transactionsProcessed st < maxTransactionsToProcess + n \<Longrightarrow>
   transactionsProcessed st' < maxTransactionsToProcess + n"
proof (induction ups arbitrary: st)
  case Nil
  then show ?case by (simp split: if_splits)
next
  case (Cons response rest)
  show ?case
  proof (cases response)
    case (Inl e)
    with Cons.prems show ?thesis by (simp split: if_splits)
  next
    case (Inr page)
    with Cons.prems(2) have "length (data page) \<le> n" by simp
    with Inr Cons.prems Cons.IH show ?thesis
      by (auto simp: Let_def split: if_splits)
  qed
qed

lemma traders_loop_returns:
  "maxTransactionsToProcess \<le> transactionsProcessed st + length ups \<Longrightarrow> traders_loop st ups \<noteq> None"
proof (induction ups arbitrary: st)
  case Nil
  then show ?case by simp
next
  case (Cons response rest)
  show ?case
  proof (cases response)
    case (Inl e)
    then show ?thesis by simp
  next
    case (Inr page)
    show ?thesis
    proof (cases "data page = []")
      case True
      with Inr show ?thesis by simp
    next
      case False
      then have "1 \<le> length (data page)" by (cases "data page") simp_all
      with Cons.prems
      have "maxTransactionsToProcess \<le> (transactionsProcessed st + length (data page)) + length rest"
        by simp
      with Cons.IH [of "st\<lparr>walletVolumes := fold add_transfer (data page) (walletVolumes st),
                            scanned := scanned st @ data page,
                            transactionsProcessed := transactionsProcessed st + length (data page),
                            offset := offset st + pageSize\<rparr>"] Inr False
      show ?thesis by (simp add: Let_def)
    qed
  qed
qed

lemma traders_public_loop_bound:
  "traders_public_loop st ups = Some (Inr st') \<Longrightarrow>
   \<forall>txs. Inr txs \<in> set ups \<longrightarrow> length txs \<le> pageSize \<Longrightarrow>
   pageSize dvd offset st \<Longrightarrow> length (scanned st) \<le> offset st \<Longrightarrow>
   offset st \<le> maxTransactionsToProcess_public \<Longrightarrow>
   length (scanned st') \<le> maxTransactionsToProcess_public"
proof (induction ups arbitrary: st)
  case Nil
  then show ?case by (simp split: if_splits)
next
  case (Cons response rest)
  show ?case
  proof (cases response)
    case (Inl e)
    with Cons.prems show ?thesis by (simp split: if_splits)
  next
    case (Inr txs)
    with Cons.prems(2) have len: "length txs \<le> pageSize" by simp
    show ?thesis
    proof (cases "offset st < maxTransactionsToProcess_public \<and> txs \<noteq> []")
      case False
      with Cons.prems(1,4,5) Inr show ?thesis
        by (cases "offset st < maxTransactionsToProcess_public") auto
    next
      case True
      from Cons.prems(3) True have room: "offset st + pageSize \<le> maxTransactionsToProcess_public"
        by (auto simp: pageSize_def maxTransactionsToProcess_public_def)
      show ?thesis
      proof (cases "length txs < pageSize")
        case short: True
        with True Cons.prems(1) Inr
        have "scanned st' = scanned st @ txs"
          by (auto simp: Let_def)
        with short Cons.prems(4) room show ?thesis by simp
      next
        case full: False
        let ?st = "st\<lparr>walletCounts := fold count_transaction txs (walletCounts st),
                       scanned := scanned st @ txs, offset := offset st + pageSize\<rparr>"
        from full True Cons.prems(1) Inr
        have run: "traders_public_loop ?st rest = Some (Inr st')"
          by (simp add: Let_def)
        show ?thesis
        proof (rule Cons.IH [OF run])
          from Cons.prems(2) show "\<forall>txs. Inr txs \<in> set rest \<longrightarrow> length txs \<le> pageSize" by simp
          from Cons.prems(3) show "pageSize dvd offset ?st" by simp
          from Cons.prems(4) len show "length (scanned ?st) \<le> offset ?st" by simp
          from room show "offset ?st \<le> maxTransactionsToProcess_public" by simp
        qed
      qed
    qed
  qed
qed

lemma traders_public_loop_returns:
  "maxTransactionsToProcess_public \<le> offset st + pageSize * length ups \<Longrightarrow>
   traders_public_loop st ups \<noteq> None"
proof (induction ups arbitrary: st)
  case Nil
  then show ?case by simp
next
  case (Cons response rest)
  show ?case
  proof (cases response)
    case (Inl e)
    then show ?thesis by simp
  next
    case (Inr txs)
    from Cons.prems
    have "maxTransactionsToProcess_public \<le> (offset st + pageSize) + pageSize * length rest"
      by simp
    with Cons.IH [of "st\<lparr>walletCounts := fold count_transaction txs (walletCounts st),
                            scanned := scanned st @ txs, offset := offset st + pageSize\<rparr>"] Inr
    show ?thesis by (simp add: Let_def)
  qed
qed
lemma length_concat_replicate: "length (concat (replicate n xs)) = n * length xs"
  by (induction n) simp_all

text \<open>
  While the pages are not empty, hold no record older than \<open>from\<close>, and report a total
  beyond the offset, the interval loop goes on to the next page.
\<close>

lemma interval_loop_full_pages:
  assumes "data page \<noteq> []"
    and "\<forall>tx \<in> set (data page). \<not> js_lt (int (blockTime tx)) from"
  shows "continueFetching st \<Longrightarrow> int (offset st + n * pageSize) < total page \<Longrightarrow>
    \<exists>st'. interval_loop from to st (replicate n (Inr page) @ rest) = interval_loop from to st' rest \<and>
      scanned st' = scanned st @ concat (replicate n (data page)) \<and>
      continueFetching st' \<and> offset st' = offset st + n * pageSize"
proof (induction n arbitrary: st)
  case 0
  then show ?case by (intro exI [of _ st]) simp
next
  case (Suc n)
  let ?st1 = "scan_page from to (data page) st"
  let ?st2 = "?st1\<lparr>offset := offset ?st1 + pageSize\<rparr>"
  from assms(2) have tw: "takeWhile (\<lambda>tx. \<not> js_lt (int (blockTime tx)) from) (data page) = data page"
    by simp
  have sc: "scanned ?st2 = scanned st @ data page"
    by (simp add: scan_page_scanned tw)
  have co: "continueFetching ?st2"
    using Suc.prems(1) assms(2) by (simp add: scan_page_continue)
  have off: "offset ?st2 = offset st + pageSize"
    by (simp add: scan_page_offset)
  from Suc.prems(2) have "int (offset ?st2 + n * pageSize) < total page"
    by (simp add: off)
  from Suc.IH [OF co this] obtain st'
    where run: "interval_loop from to ?st2 (replicate n (Inr page) @ rest) = interval_loop from to st' rest"
      and sc': "scanned st' = scanned ?st2 @ concat (replicate n (data page))"
      and co': "continueFetching st'" and off': "offset st' = offset ?st2 + n * pageSize"
    by blast
  have "offset st + pageSize \<le> offset st + Suc n * pageSize"
    by simp
  then have "int (offset ?st2) \<le> int (offset st + Suc n * pageSize)"
    unfolding off by (rule iffD2 [OF of_nat_le_iff])
  with Suc.prems(2) have "\<not> int (offset ?st2) \<ge> total page"
    by linarith
  with Suc.prems(1) assms(1)
  have "interval_loop from to st (replicate (Suc n) (Inr page) @ rest)
      = interval_loop from to ?st2 (replicate n (Inr page) @ rest)"
    by (simp add: Let_def)
  with run sc' co' off' sc off show ?case
    by (intro exI [of _ st']) simp
qed

lemma traders_loop_full_pages:
  assumes "data page \<noteq> []"
  shows "n = 0 \<or> transactionsProcessed st + (n - 1) * length (data page) < maxTransactionsToProcess \<Longrightarrow>
    int (transactionsProcessed st + n * length (data page)) < total page \<Longrightarrow>
    \<exists>st'. traders_loop st (replicate n (Inr page) @ rest) = traders_loop st' rest \<and>
      scanned st' = scanned st @ concat (replicate n (data page)) \<and>
      transactionsProcessed st' = transactionsProcessed st + n * length (data page)"
proof (induction n arbitrary: st)
  case 0
  then show ?case by (intro exI [of _ st]) simp
next
  case (Suc n)
  let ?st2 = "st\<lparr>walletVolumes := fold add_transfer (data page) (walletVolumes st),
                  scanned := scanned st @ data page,
                  transactionsProcessed := transactionsProcessed st + length (data page),
                  offset := offset st + pageSize\<rparr>"
  from Suc.prems(1) have enter: "transactionsProcessed st < maxTransactionsToProcess"
    by (auto intro: le_less_trans [rotated])
  from Suc.prems(1) have 1: "n = 0 \<or> transactionsProcessed ?st2 + (n - 1) * length (data page)
      < maxTransactionsToProcess"
    by (cases n) (simp_all add: algebra_simps)
  from Suc.prems(2) have 2: "int (transactionsProcessed ?st2 + n * length (data page)) < total page"
    by (simp add: algebra_simps)
  from Suc.IH [OF 1 2] obtain st'
    where run: "traders_loop ?st2 (replicate n (Inr page) @ rest) = traders_loop st' rest"
      and sc': "scanned st' = scanned ?st2 @ concat (replicate n (data page))"
      and tp': "transactionsProcessed st' = transactionsProcessed ?st2 + n * length (data page)"
    by blast
  have "transactionsProcessed st + length (data page)
      \<le> transactionsProcessed st + Suc n * length (data page)"
    by simp
  then have "int (transactionsProcessed st + length (data page))
      \<le> int (transactionsProcessed st + Suc n * length (data page))"
    by (rule iffD2 [OF of_nat_le_iff])
  with Suc.prems(2) have "\<not> int (transactionsProcessed st + length (data page)) \<ge> total page"
    by linarith
  with enter assms
  have "traders_loop st (replicate (Suc n) (Inr page) @ rest)
      = traders_loop ?st2 (replicate n (Inr page) @ rest)"
    by (simp add: Let_def)
  with run sc' tp' show ?case
    by (intro exI [of _ st']) (simp add: algebra_simps)
qed

section \<open>The cap on the records scanned\<close>

text \<open>
  Claim C4, as amended. Each trader loop stops at a fixed cap, whatever total the upstream
  reports. The pro-API loop tests the cap of 1000 processed records before each request, so
  with pages of at most \<open>pageSize\<close> records it scans fewer than \<open>1000 + pageSize\<close>
  records; the public-API loop requests at most ten pages and scans at most 500 records.
  Both return on every upstream that has an answer for each of their requests (1000 and 10
  answers are always enough).
\<close>

theorem traders_scan_cap:
  "((\<forall>page. Inr page \<in> set ups \<longrightarrow> length (data page) \<le> pageSize) \<longrightarrow>
      length (traders_scanned ups) < maxTransactionsToProcess + pageSize) \<and>
   (maxTransactionsToProcess \<le> length ups \<longrightarrow> fetchTopTraders key limit ups \<noteq> None) \<and>
   ((\<forall>txs. Inr txs \<in> set pups \<longrightarrow> length txs \<le> pageSize) \<longrightarrow>
      length (traders_public_scanned pups) \<le> maxTransactionsToProcess_public) \<and>
   (maxTransactionsToProcess_public \<le> pageSize * length pups \<longrightarrow>
      fetchTopTraders_public limit pups \<noteq> None)"
proof (intro conjI impI)
  assume pages: "\<forall>page. Inr page \<in> set ups \<longrightarrow> length (data page) \<le> pageSize"
  show "length (traders_scanned ups) < maxTransactionsToProcess + pageSize"
  proof (cases "traders_loop traders_init ups")
    case None
    then show ?thesis
      by (simp add: traders_scanned_def final_scanned_def maxTransactionsToProcess_def)
  next
    case (Some outcome)
    show ?thesis
    proof (cases outcome)
      case (Inl e)
      with Some show ?thesis
        by (simp add: traders_scanned_def final_scanned_def maxTransactionsToProcess_def)
    next
      case (Inr st)
      with Some have run: "traders_loop traders_init ups = Some (Inr st)" by simp
      from traders_loop_bound [OF run pages]
      have "transactionsProcessed st < maxTransactionsToProcess + pageSize"
        by (simp add: traders_init_def maxTransactionsToProcess_def)
      moreover from traders_loop_processed [OF run]
      have "transactionsProcessed st = length (scanned st)"
        by (simp add: traders_init_def)
      ultimately show ?thesis
        using run by (simp add: traders_scanned_def final_scanned_def)
    qed
  qed
next
  assume "maxTransactionsToProcess \<le> length ups"
  then have "traders_loop traders_init ups \<noteq> None"
    by (intro traders_loop_returns) simp
  then show "fetchTopTraders key limit ups \<noteq> None"
    by (auto simp: fetchTopTraders_def split: option.splits sum.splits)
next
  assume pages: "\<forall>txs. Inr txs \<in> set pups \<longrightarrow> length txs \<le> pageSize"
  show "length (traders_public_scanned pups) \<le> maxTransactionsToProcess_public"
  proof (cases "traders_public_loop traders_public_init pups")
    case None
    then show ?thesis
      by (simp add: traders_public_scanned_def final_scanned_def)
  next
    case (Some outcome)
    show ?thesis
    proof (cases outcome)
      case (Inl e)
      with Some show ?thesis
        by (simp add: traders_public_scanned_def final_scanned_def)
    next
      case (Inr st)
      with Some have run: "traders_public_loop traders_public_init pups = Some (Inr st)" by simp
      from traders_public_loop_bound [OF run pages]
      have "length (scanned st) \<le> maxTransactionsToProcess_public"
        by (simp add: traders_public_init_def)
      with run show ?thesis
        by (simp add: traders_public_scanned_def final_scanned_def)
    qed
  qed
next
  assume "maxTransactionsToProcess_public \<le> pageSize * length pups"
  then have "traders_public_loop traders_public_init pups \<noteq> None"
    by (intro traders_public_loop_returns) (simp add: traders_public_init_def)
  then show "fetchTopTraders_public limit pups \<noteq> None"
    by (auto simp: fetchTopTraders_public_def split: option.splits sum.splits)
qed

theorem traders_scan_cap_witness:
  "length (traders_scanned
     (replicate 1000 (Inr \<lparr>data = [\<lparr>owner = ''A'', blockTime = 5, changeAmount = 1\<rparr>], total = 2000\<rparr>)))
     < maxTransactionsToProcess + pageSize \<and>
   fetchTopTraders (Some ''key'') (Some 10)
     (replicate 1000 (Inr \<lparr>data = [\<lparr>owner = ''A'', blockTime = 5, changeAmount = 1\<rparr>], total = 2000\<rparr>))
     \<noteq> None \<and>
   length (traders_public_scanned (replicate 10 (Inr [\<lparr>signer = [''A''], pt_blockTime = 5\<rparr>])))
     \<le> maxTransactionsToProcess_public \<and>
   fetchTopTraders_public (Some 10) (replicate 10 (Inr [\<lparr>signer = [''A''], pt_blockTime = 5\<rparr>])) \<noteq> None"
proof -
  let ?ups = "replicate 1000 (Inr \<lparr>data = [\<lparr>owner = ''A'', blockTime = 5, changeAmount = 1\<rparr>], total = 2000\<rparr>)
                :: Transaction upstream"
  let ?pups = "replicate 10 (Inr [\<lparr>signer = [''A''], pt_blockTime = 5\<rparr>]) :: PublicTransaction public_upstream"
  have 1: "\<forall>page. Inr page \<in> set ?ups \<longrightarrow> length (data page) \<le> pageSize"
    by (simp add: pageSize_def)
  have 2: "maxTransactionsToProcess \<le> length ?ups"
    by (simp add: maxTransactionsToProcess_def)
  have 3: "\<forall>txs. Inr txs \<in> set ?pups \<longrightarrow> length txs \<le> pageSize"
    by (simp add: pageSize_def)
  have 4: "maxTransactionsToProcess_public \<le> pageSize * length ?pups"
    by (simp add: maxTransactionsToProcess_public_def pageSize_def)
  from traders_scan_cap [of ?ups "Some ''key''" "Some 10" ?pups] 1 2 3 4
  show ?thesis
    by blast
qed

text \<open>
  The interval versions have no such cap: they stop only at an empty page, at the reported
  total (a short page for the public API) or at a record older than \<open>from\<close>. With 21
  full pages of records inside the window and a reported total of 2000, the interval loop
  scans 1050 records. The pro-API trader loop passes its cap by less than one page: with
  pages of 49 records it scans 1029.
\<close>

theorem scan_beyond_the_cap:
  "length (interval_scanned (Some 0) (Some 10)
     (replicate 21 (Inr \<lparr>data = replicate 50 \<lparr>owner = ''A'', blockTime = 5, changeAmount = 1\<rparr>,
                           total = 2000\<rparr>)
      @ [Inr \<lparr>data = [], total = 2000\<rparr>])) = 1050 \<and>
   length (traders_scanned
     (replicate 21 (Inr \<lparr>data = replicate 49 \<lparr>owner = ''A'', blockTime = 5, changeAmount = 1\<rparr>,
                           total = 2000\<rparr>))) = 1029 \<and>
   \<not> (1050 :: nat) \<le> maxTransactionsToProcess \<and> \<not> (1029 :: nat) \<le> maxTransactionsToProcess"
proof -
  let ?tx = "\<lparr>owner = ''A'', blockTime = 5, changeAmount = 1\<rparr>"
  let ?page = "\<lparr>data = replicate 50 ?tx, total = 2000\<rparr>"
  let ?short = "\<lparr>data = replicate 49 ?tx, total = 2000\<rparr>"
  have "\<exists>st'. interval_loop (Some 0) (Some 10) interval_init
          (replicate 21 (Inr ?page) @ [Inr \<lparr>data = [], total = 2000\<rparr>])
        = interval_loop (Some 0) (Some 10) st' [Inr \<lparr>data = [], total = 2000\<rparr>] \<and>
      scanned st' = scanned (interval_init :: Transaction interval_state) @ concat (replicate 21 (data ?page)) \<and>
      continueFetching st' \<and> offset st' = offset (interval_init :: Transaction interval_state) + 21 * pageSize"
    by (rule interval_loop_full_pages)
       (simp_all add: js_lt_def interval_init_def pageSize_def)
  then obtain st' where "interval_loop (Some 0) (Some 10) interval_init
          (replicate 21 (Inr ?page) @ [Inr \<lparr>data = [], total = 2000\<rparr>]) = Some (Inr st')"
      and "scanned st' = concat (replicate 21 (replicate 50 ?tx))"
    by (auto simp: interval_init_def)
  then have 1: "length (interval_scanned (Some 0) (Some 10)
      (replicate 21 (Inr ?page) @ [Inr \<lparr>data = [], total = 2000\<rparr>])) = 1050"
    by (simp add: interval_scanned_def final_scanned_def length_concat_replicate)
  have "\<exists>st'. traders_loop traders_init (replicate 21 (Inr ?short) @ []) = traders_loop st' [] \<and>
      scanned st' = scanned traders_init @ concat (replicate 21 (data ?short)) \<and>
      transactionsProcessed st'
        = transactionsProcessed traders_init + 21 * length (data ?short)"
    by (rule traders_loop_full_pages)
       (simp_all add: traders_init_def maxTransactionsToProcess_def)
  then obtain st' where "traders_loop traders_init (replicate 21 (Inr ?short)) = Some (Inr st')"
      and "scanned st' = concat (replicate 21 (replicate 49 ?tx))"
    by (auto simp: traders_init_def maxTransactionsToProcess_def)
  then have 2: "length (traders_scanned (replicate 21 (Inr ?short))) = 1029"
    by (simp add: traders_scanned_def final_scanned_def length_concat_replicate)
  from 1 2 show ?thesis
    by (simp add: maxTransactionsToProcess_def)
qed

section \<open>Runs against failing and longer upstreams\<close>

text \<open>
  A run without a result has used up the responses it was given and asks for one later. If
  that request fails, the run throws; the responses that would follow are never asked for.
\<close>

lemma traders_loop_failure:
  "traders_loop st ups = None \<Longrightarrow>
   traders_loop st (ups @ Inl e # rest) = Some (Inl (Error ''Failed to fetch transfer data from Solscan.''))"
proof (induction ups arbitrary: st)
  case Nil
  then show ?case by (simp split: if_splits)
next
  case (Cons response ups)
  show ?case
  proof (cases response)
    case (Inl e')
    with Cons.prems show ?thesis by (simp split: if_splits)
  next
    case (Inr page)
    with Cons.prems Cons.IH show ?thesis
      by (auto simp: Let_def split: if_splits)
  qed
qed

lemma traders_public_loop_failure:
  "traders_public_loop st ups = None \<Longrightarrow>
   traders_public_loop st (ups @ Inl e # rest) = Some (Inl (Error ''Failed to fetch transaction data from Solscan.''))"
proof (induction ups arbitrary: st)
  case Nil
  then show ?case by (simp split: if_splits)
next
  case (Cons response ups)
  show ?case
  proof (cases response)
    case (Inl e')
    with Cons.prems show ?thesis by (simp split: if_splits)
  next
    case (Inr page)
    with Cons.prems Cons.IH show ?thesis
      by (auto simp: Let_def split: if_splits)
  qed
qed

lemma interval_loop_failure:
  "interval_loop from to st ups = None \<Longrightarrow>
   interval_loop from to st (ups @ Inl e # rest) = Some (Inl (Error ''Failed to fetch transfer data from Solscan.''))"
proof (induction ups arbitrary: st)
  case Nil
  then show ?case by (simp split: if_splits)
next
  case (Cons response ups)
  show ?case
  proof (cases response)
    case (Inl e')
    with Cons.prems show ?thesis by (simp split: if_splits)
  next
    case (Inr page)
    with Cons.prems Cons.IH show ?thesis
      by (auto simp: Let_def split: if_splits)
  qed
qed

lemma interval_public_loop_failure:
  "interval_public_loop from to st ups = None \<Longrightarrow>
   interval_public_loop from to st (ups @ Inl e # rest) = Some (Inl (Error ''Failed to fetch transaction data from Solscan.''))"
proof (induction ups arbitrary: st)
  case Nil
  then show ?case by (simp split: if_splits)
next
  case (Cons response ups)
  show ?case
  proof (cases response)
    case (Inl e')
    with Cons.prems show ?thesis by (simp split: if_splits)
  next
    case (Inr page)
    with Cons.prems Cons.IH show ?thesis
      by (auto simp: Let_def split: if_splits)
  qed
qed

lemma holders_loop_failure:
  "holders_loop limit m st ups = None \<Longrightarrow>
   holders_loop limit m st (ups @ Inl e # rest) = Some (Inl (Error ''Failed to fetch holder data from Solscan.''))"
proof (induction ups arbitrary: st)
  case Nil
  then show ?case by (simp split: if_splits)
next
  case (Cons response ups)
  show ?case
  proof (cases response)
    case (Inl e')
    with Cons.prems show ?thesis by (simp split: if_splits)
  next
    case (Inr page)
    with Cons.prems Cons.IH show ?thesis
      by (auto simp: Let_def split: if_splits)
  qed
qed

lemma holders_public_loop_failure:
  "holders_public_loop limit m st ups = None \<Longrightarrow>
   holders_public_loop limit m st (ups @ Inl e # rest) = Some (Inl (Error ''Failed to fetch holder data from Solscan.''))"
proof (induction ups arbitrary: st)
  case Nil
  then show ?case by (simp split: if_splits)
next
  case (Cons response ups)
  show ?case
  proof (cases response)
    case (Inl e')
    with Cons.prems show ?thesis by (simp split: if_splits)
  next
    case (Inr page)
    with Cons.prems Cons.IH show ?thesis
      by (auto simp: Let_def split: if_splits)
  qed
qed

text \<open>
  A run with a result has made its requests within the responses it was given: responses
  appended to the upstream do not change the result.
\<close>

lemma traders_loop_extend:
  "traders_loop st ups = Some r \<Longrightarrow> traders_loop st (ups @ later) = Some r"
proof (induction ups arbitrary: st)
  case Nil
  then show ?case by (cases later) (simp_all split: if_splits)
next
  case (Cons response ups)
  show ?case
  proof (cases response)
    case (Inl e')
    with Cons.prems show ?thesis by (simp split: if_splits)
  next
    case (Inr page)
    with Cons.prems Cons.IH show ?thesis
      by (auto simp: Let_def split: if_splits)
  qed
qed

lemma traders_public_loop_extend:
  "traders_public_loop st ups = Some r \<Longrightarrow> traders_public_loop st (ups @ later) = Some r"
proof (induction ups arbitrary: st)
  case Nil
  then show ?case by (cases later) (simp_all split: if_splits)
next
  case (Cons response ups)
  show ?case
  proof (cases response)
    case (Inl e')
    with Cons.prems show ?thesis by (simp split: if_splits)
  next
    case (Inr page)
    with Cons.prems Cons.IH show ?thesis
      by (auto simp: Let_def split: if_splits)
  qed
qed

lemma interval_loop_extend:
  "interval_loop from to st ups = Some r \<Longrightarrow> interval_loop from to st (ups @ later) = Some r"
proof (induction ups arbitrary: st)
  case Nil
  then show ?case by (cases later) (simp_all split: if_splits)
next
  case (Cons response ups)
  show ?case
  proof (cases response)
    case (Inl e')
    with Cons.prems show ?thesis by (simp split: if_splits)
  next
    case (Inr page)
    with Cons.prems Cons.IH show ?thesis
      by (auto simp: Let_def split: if_splits)
  qed
qed

lemma interval_public_loop_extend:
  "interval_public_loop from to st ups = Some r \<Longrightarrow> interval_public_loop from to st (ups @ later) = Some r"
proof (induction ups arbitrary: st)
  case Nil
  then show ?case by (cases later) (simp_all split: if_splits)
next
  case (Cons response ups)
  show ?case
  proof (cases response)
    case (Inl e')
    with Cons.prems show ?thesis by (simp split: if_splits)
  next
    case (Inr page)
    with Cons.prems Cons.IH show ?thesis
      by (auto simp: Let_def split: if_splits)
  qed
qed

lemma holders_loop_extend:
  "holders_loop limit m st ups = Some r \<Longrightarrow> holders_loop limit m st (ups @ later) = Some r"
proof (induction ups arbitrary: st)
  case Nil
  then show ?case by (cases later) (simp_all split: if_splits)
next
  case (Cons response ups)
  show ?case
  proof (cases response)
    case (Inl e')
    with Cons.prems show ?thesis by (simp split: if_splits)
  next
    case (Inr page)
    with Cons.prems Cons.IH show ?thesis
      by (auto simp: Let_def split: if_splits)
  qed
qed

lemma holders_public_loop_extend:
  "holders_public_loop limit m st ups = Some r \<Longrightarrow> holders_public_loop limit m st (ups @ later) = Some r"
proof (induction ups arbitrary: st)
  case Nil
  then show ?case by (cases later) (simp_all split: if_splits)
next
  case (Cons response ups)
  show ?case
  proof (cases response)
    case (Inl e')
    with Cons.prems show ?thesis by (simp split: if_splits)
  next
    case (Inr page)
    with Cons.prems Cons.IH show ?thesis
      by (auto simp: Let_def split: if_splits)
  qed
qed

lemma respond_None: "respond outcome = None \<longleftrightarrow> outcome = None"
  by (auto simp: respond_def split: option.splits sum.splits error.splits)

lemma respond_error: "respond (Some (Inl (Error msg))) = Some \<lparr>status = 500, body = ErrorBody msg\<rparr>"
  by (simp add: respond_def)



lemma fetchTopTraders_failure:
  "fetchTopTraders key limit ups = None \<Longrightarrow>
   fetchTopTraders key limit (ups @ Inl e # rest)
     = Some (Inl (Error ''Failed to fetch transfer data from Solscan.''))"
  by (auto simp: fetchTopTraders_def traders_loop_failure split: if_splits option.splits sum.splits)

lemma fetchActiveWallets_failure:
  "fetchActiveWallets key from to ups = None \<Longrightarrow>
   fetchActiveWallets key from to (ups @ Inl e # rest)
     = Some (Inl (Error ''Failed to fetch transfer data from Solscan.''))"
  by (auto simp: fetchActiveWallets_def interval_loop_failure split: if_splits option.splits sum.splits)

lemma fetchHolders_failure:
  "fetchHolders key limit m ups = None \<Longrightarrow>
   fetchHolders key limit m (ups @ Inl e # rest)
     = Some (Inl (Error ''Failed to fetch holder data from Solscan.''))"
  by (auto simp: fetchHolders_def holders_loop_failure split: if_splits option.splits sum.splits)

section \<open>A failed request aborts the aggregation\<close>

text \<open>
  Claim C6. Let the responses \<open>ups\<close> be used up without a result, so that the run asks
  for a further page, and let that request fail (a transport error or a status outside
  2xx). Then every aggregation throws its generic error, and the handler answers 500 with
  that message: the response carries no row of the pages accumulated so far, and no
  response after the failure is asked for (the result is the same for every \<open>rest\<close>,
  also when a repeated request would succeed).
\<close>

theorem fetch_failure_aborts:
  "(handler_holders parseInt parseFloat key q hups = None \<longrightarrow>
      handler_holders parseInt parseFloat key q (hups @ Inl e # hrest)
        = Some \<lparr>status = 500, body = ErrorBody ''Failed to fetch holder data from Solscan.''\<rparr>) \<and>
   (handler_traders parseInt key q ups = None \<longrightarrow>
      handler_traders parseInt key q (ups @ Inl e # rest)
        = Some \<lparr>status = 500, body = ErrorBody ''Failed to fetch transfer data from Solscan.''\<rparr>) \<and>
   (handler_interval parseInt key q ups = None \<longrightarrow>
      handler_interval parseInt key q (ups @ Inl e # rest)
        = Some \<lparr>status = 500, body = ErrorBody ''Failed to fetch transfer data from Solscan.''\<rparr>) \<and>
   (fetchHolders_public limit m phups = None \<longrightarrow>
      fetchHolders_public limit m (phups @ Inl e # phrest)
        = Some (Inl (Error ''Failed to fetch holder data from Solscan.''))) \<and>
   (fetchTopTraders_public limit pups = None \<longrightarrow>
      fetchTopTraders_public limit (pups @ Inl e # prest)
        = Some (Inl (Error ''Failed to fetch transaction data from Solscan.''))) \<and>
   (fetchActiveWallets_public from to pups = None \<longrightarrow>
      fetchActiveWallets_public from to (pups @ Inl e # prest)
        = Some (Inl (Error ''Failed to fetch transaction data from Solscan.'')))"
proof (intro conjI impI)
  assume "handler_holders parseInt parseFloat key q hups = None"
  then show "handler_holders parseInt parseFloat key q (hups @ Inl e # hrest)
        = Some \<lparr>status = 500, body = ErrorBody ''Failed to fetch holder data from Solscan.''\<rparr>"
    by (auto simp: handler_holders_def Let_def respond_None respond_error fetchHolders_failure
             split: if_splits)
next
  assume "handler_traders parseInt key q ups = None"
  then show "handler_traders parseInt key q (ups @ Inl e # rest)
        = Some \<lparr>status = 500, body = ErrorBody ''Failed to fetch transfer data from Solscan.''\<rparr>"
    by (auto simp: handler_traders_def Let_def respond_None respond_error fetchTopTraders_failure
             split: if_splits)
next
  assume "handler_interval parseInt key q ups = None"
  then show "handler_interval parseInt key q (ups @ Inl e # rest)
        = Some \<lparr>status = 500, body = ErrorBody ''Failed to fetch transfer data from Solscan.''\<rparr>"
    by (auto simp: handler_interval_def Let_def respond_None respond_error fetchActiveWallets_failure
             split: if_splits)
next
  assume "fetchHolders_public limit m phups = None"
  then show "fetchHolders_public limit m (phups @ Inl e # phrest)
        = Some (Inl (Error ''Failed to fetch holder data from Solscan.''))"
    by (auto simp: fetchHolders_public_def holders_public_loop_failure split: option.splits sum.splits)
next
  assume "fetchTopTraders_public limit pups = None"
  then show "fetchTopTraders_public limit (pups @ Inl e # prest)
        = Some (Inl (Error ''Failed to fetch transaction data from Solscan.''))"
    by (auto simp: fetchTopTraders_public_def traders_public_loop_failure split: option.splits sum.splits)
next
  assume "fetchActiveWallets_public from to pups = None"
  then show "fetchActiveWallets_public from to (pups @ Inl e # prest)
        = Some (Inl (Error ''Failed to fetch transaction data from Solscan.''))"
    by (auto simp: fetchActiveWallets_public_def interval_public_loop_failure
             split: option.splits sum.splits)
qed

theorem fetch_failure_aborts_witness:
  "handler_holders parseInt_of_examples (\<lambda>s. Some 0) (Some ''key'')
     \<lparr>q_token = Str ''T'', q_limit = Undefined, q_minAmount = Undefined, q_from = Str ''100'', q_to = Str ''150''\<rparr>
     [Inr \<lparr>data = [\<lparr>holder_owner = ''A'', uiAmount = 50\<rparr>], total = 100\<rparr>] = None \<and>
   handler_holders parseInt_of_examples (\<lambda>s. Some 0) (Some ''key'')
     \<lparr>q_token = Str ''T'', q_limit = Undefined, q_minAmount = Undefined, q_from = Str ''100'', q_to = Str ''150''\<rparr>
     ([Inr \<lparr>data = [\<lparr>holder_owner = ''A'', uiAmount = 50\<rparr>], total = 100\<rparr>]
        @ Inl NetworkError # [Inr \<lparr>data = [], total = 100\<rparr>])
     = Some \<lparr>status = 500, body = ErrorBody ''Failed to fetch holder data from Solscan.''\<rparr> \<and>
   handler_traders parseInt_of_examples (Some ''key'')
     \<lparr>q_token = Str ''T'', q_limit = Undefined, q_minAmount = Undefined, q_from = Str ''100'', q_to = Str ''150''\<rparr>
     ([Inr \<lparr>data = [\<lparr>owner = ''B'', blockTime = 120, changeAmount = 5\<rparr>], total = 100\<rparr>]
        @ Inl NetworkError # [Inr \<lparr>data = [], total = 100\<rparr>])
     = Some \<lparr>status = 500, body = ErrorBody ''Failed to fetch transfer data from Solscan.''\<rparr> \<and>
   handler_interval parseInt_of_examples (Some ''key'')
     \<lparr>q_token = Str ''T'', q_limit = Undefined, q_minAmount = Undefined, q_from = Str ''100'', q_to = Str ''150''\<rparr>
     ([Inr \<lparr>data = [\<lparr>owner = ''B'', blockTime = 120, changeAmount = 5\<rparr>], total = 100\<rparr>]
        @ Inl NetworkError # [Inr \<lparr>data = [], total = 100\<rparr>])
     = Some \<lparr>status = 500, body = ErrorBody ''Failed to fetch transfer data from Solscan.''\<rparr> \<and>
   fetchHolders_public (Some 10) (Some 0) ([] @ Inl (BadStatus 429) # [])
     = Some (Inl (Error ''Failed to fetch holder data from Solscan.'')) \<and>
   fetchTopTraders_public (Some 10) ([] @ Inl (BadStatus 429) # [])
     = Some (Inl (Error ''Failed to fetch transaction data from Solscan.'')) \<and>
   fetchActiveWallets_public (Some 100) (Some 150) ([] @ Inl (BadStatus 429) # [])
     = Some (Inl (Error ''Failed to fetch transaction data from Solscan.''))"
proof -
  let ?q = "\<lparr>q_token = Str ''T'', q_limit = Undefined, q_minAmount = Undefined,
              q_from = Str ''100'', q_to = Str ''150''\<rparr>"
  let ?hups = "[Inr \<lparr>data = [\<lparr>holder_owner = ''A'', uiAmount = 50\<rparr>], total = 100\<rparr>]"
  let ?ups = "[Inr \<lparr>data = [\<lparr>owner = ''B'', blockTime = 120, changeAmount = 5\<rparr>], total = 100\<rparr>]"
  have 1: "handler_holders parseInt_of_examples (\<lambda>s. Some 0) (Some ''key'') ?q ?hups = None"
    by (simp add: handler_holders_def truthy_def is_string_def with_default_def to_string_def
          parseInt_of_examples_def respond_def
          fetchHolders_def api_key_configured_def holders_init_def pageSize_def
          js_lt_def js_ge_def filteredHolders_def holder_rows_def)
  have 2: "handler_traders parseInt_of_examples (Some ''key'') ?q ?ups = None"
    by (simp add: handler_traders_def truthy_def is_string_def with_default_def to_string_def
          parseInt_of_examples_def respond_def
          fetchTopTraders_def api_key_configured_def traders_init_def pageSize_def
          maxTransactionsToProcess_def)
  have 3: "handler_interval parseInt_of_examples (Some ''key'') ?q ?ups = None"
    by (simp add: handler_interval_def truthy_def is_string_def to_string_def
          parseInt_of_examples_def respond_def
          fetchActiveWallets_def api_key_configured_def interval_init_def pageSize_def
          js_lt_def js_le_def js_ge_def note_activity_def)
  have 4: "fetchHolders_public (Some 10) (Some 0) [] = None"
    by (simp add: fetchHolders_public_def holders_init_def js_lt_def)
  have 5: "fetchTopTraders_public (Some 10) [] = None"
    by (simp add: fetchTopTraders_public_def traders_public_init_def maxTransactionsToProcess_public_def)
  have 6: "fetchActiveWallets_public (Some 100) (Some 150) [] = None"
    by (simp add: fetchActiveWallets_public_def interval_init_def)
  from fetch_failure_aborts [of parseInt_of_examples "\<lambda>s. Some 0" "Some ''key''" ?q ?hups NetworkError
      "[Inr \<lparr>data = [], total = 100\<rparr>]" ?ups "[Inr \<lparr>data = [], total = 100\<rparr>]"] 1 2 3
  have a: "handler_holders parseInt_of_examples (\<lambda>s. Some 0) (Some ''key'') ?q (?hups @ Inl NetworkError # [Inr \<lparr>data = [], total = 100\<rparr>])
        = Some \<lparr>status = 500, body = ErrorBody ''Failed to fetch holder data from Solscan.''\<rparr>"
    and b: "handler_traders parseInt_of_examples (Some ''key'') ?q (?ups @ Inl NetworkError # [Inr \<lparr>data = [], total = 100\<rparr>])
        = Some \<lparr>status = 500, body = ErrorBody ''Failed to fetch transfer data from Solscan.''\<rparr>"
    and c: "handler_interval parseInt_of_examples (Some ''key'') ?q (?ups @ Inl NetworkError # [Inr \<lparr>data = [], total = 100\<rparr>])
        = Some \<lparr>status = 500, body = ErrorBody ''Failed to fetch transfer data from Solscan.''\<rparr>"
    by blast+
  from fetch_failure_aborts [where limit = "Some 10" and m = "Some 0" and phups = "[]"
      and e = "BadStatus 429" and phrest = "[]" and pups = "[]" and prest = "[]"
      and ?from = "Some 100" and to = "Some 150"] 4 5 6
  have d: "fetchHolders_public (Some 10) (Some 0) ([] @ Inl (BadStatus 429) # [])
        = Some (Inl (Error ''Failed to fetch holder data from Solscan.''))"
    and e: "fetchTopTraders_public (Some 10) ([] @ Inl (BadStatus 429) # [])
        = Some (Inl (Error ''Failed to fetch transaction data from Solscan.''))"
    and f: "fetchActiveWallets_public (Some 100) (Some 150) ([] @ Inl (BadStatus 429) # [])
        = Some (Inl (Error ''Failed to fetch transaction data from Solscan.''))"
    by blast+
  from 1 a b c d e f show ?thesis
    by blast
qed

lemma slice0_Nil: "slice0 limit [] = []"
  by (simp add: slice0_def split: option.splits)

section \<open>An empty first page\<close>

text \<open>
  Claim C9. When the first page that the upstream delivers has no record, every
  aggregation returns the empty result, without an error and without a further request
  (the result does not depend on the responses \<open>rest\<close> that would follow). The pro-API
  versions first require the API key.
\<close>

theorem empty_first_page:
  "(api_key_configured key \<and> data hpage = [] \<longrightarrow>
      fetchHolders key limit m (Inr hpage # hrest) = Some (Inr [])) \<and>
   (api_key_configured key \<and> data page = [] \<longrightarrow>
      fetchTopTraders key limit (Inr page # rest) = Some (Inr [])) \<and>
   (api_key_configured key \<and> data page = [] \<longrightarrow>
      fetchActiveWallets key from to (Inr page # rest) = Some (Inr [])) \<and>
   fetchHolders_public limit m (Inr [] # phrest) = Some (Inr []) \<and>
   fetchTopTraders_public limit (Inr [] # prest) = Some (Inr []) \<and>
   fetchActiveWallets_public from to (Inr [] # prest) = Some (Inr [])"
proof (intro conjI impI)
  assume "api_key_configured key \<and> data hpage = []"
  then show "fetchHolders key limit m (Inr hpage # hrest) = Some (Inr [])"
    by (simp add: fetchHolders_def holders_init_def slice0_Nil)
next
  assume "api_key_configured key \<and> data page = []"
  then show "fetchTopTraders key limit (Inr page # rest) = Some (Inr [])"
    by (simp add: fetchTopTraders_def traders_init_def maxTransactionsToProcess_def
          sortedTraders_def object_entries_def sort_by_volume_def slice0_Nil)
next
  assume "api_key_configured key \<and> data page = []"
  then show "fetchActiveWallets key from to (Inr page # rest) = Some (Inr [])"
    by (simp add: fetchActiveWallets_def interval_init_def active_rows_def)
next
  show "fetchHolders_public limit m (Inr [] # phrest) = Some (Inr [])"
    by (simp add: fetchHolders_public_def holders_init_def slice0_Nil)
next
  show "fetchTopTraders_public limit (Inr [] # prest) = Some (Inr [])"
    by (simp add: fetchTopTraders_public_def traders_public_init_def
          maxTransactionsToProcess_public_def sortedTraders_public_def object_entries_def
          sort_by_volume_def slice0_Nil)
next
  show "fetchActiveWallets_public from to (Inr [] # prest) = Some (Inr [])"
    by (simp add: fetchActiveWallets_public_def interval_init_def active_rows_def)
qed

theorem empty_first_page_witness:
  "fetchHolders (Some ''key'') (Some 100) (Some 0) (Inr \<lparr>data = [], total = 0\<rparr> # []) = Some (Inr []) \<and>
   fetchTopTraders (Some ''key'') (Some 50) (Inr \<lparr>data = [], total = 0\<rparr> # []) = Some (Inr []) \<and>
   fetchActiveWallets (Some ''key'') (Some 100) (Some 150) (Inr \<lparr>data = [], total = 0\<rparr> # [])
     = Some (Inr [])"
proof -
  have k: "api_key_configured (Some ''key'')"
    by (simp add: api_key_configured_def)
  have h: "data (\<lparr>data = [], total = 0\<rparr> :: Holder Page) = []"
    and p: "data (\<lparr>data = [], total = 0\<rparr> :: Transaction Page) = []"
    by simp_all
  from empty_first_page [of "Some ''key''" "\<lparr>data = [], total = 0\<rparr>" "Some 100" "Some 0" "[]"
      "\<lparr>data = [], total = 0\<rparr>" "[]"] k h p
  have 1: "fetchHolders (Some ''key'') (Some 100) (Some 0) (Inr \<lparr>data = [], total = 0\<rparr> # []) = Some (Inr [])"
    by blast
  from empty_first_page [where key = "Some ''key''" and page = "\<lparr>data = [], total = 0\<rparr>"
      and limit = "Some 50" and rest = "[]" and ?from = "Some 100" and to = "Some 150"] k p
  have 2: "fetchTopTraders (Some ''key'') (Some 50) (Inr \<lparr>data = [], total = 0\<rparr> # []) = Some (Inr [])"
    and 3: "fetchActiveWallets (Some ''key'') (Some 100) (Some 150) (Inr \<lparr>data = [], total = 0\<rparr> # [])
     = Some (Inr [])"
    by blast+
  from 1 2 3 show ?thesis by blast
qed

section \<open>The result is determined by the pages fetched\<close>

text \<open>
  Claim C8. An aggregation reads nothing but its parameters and the responses to its
  requests; no state of an earlier run bears on its result (what a wallet named like a member
  of \<^verbatim>\<open>Object.prototype\<close> makes the code write to that member is \<^verbatim>\<open>NaN\<close>, which
  the code takes for an absent entry). When a run against the responses \<open>ups\<close>
  has the outcome \<open>r\<close>, every run with the same parameters against an upstream that
  answers the same requests in the same way has the outcome \<open>r\<close>, whatever that upstream
  would have answered afterwards; in particular a second run against the same pages
  (\<open>later = []\<close>) yields the same rows, in the same order, with the same values.
\<close>

theorem same_pages_same_result:
  "(fetchHolders key limit m hups = Some hr \<longrightarrow> fetchHolders key limit m (hups @ hlater) = Some hr) \<and>
   (fetchTopTraders key limit ups = Some tr \<longrightarrow> fetchTopTraders key limit (ups @ later) = Some tr) \<and>
   (fetchActiveWallets key from to ups = Some ar \<longrightarrow>
      fetchActiveWallets key from to (ups @ later) = Some ar) \<and>
   (fetchHolders_public limit m phups = Some hr \<longrightarrow>
      fetchHolders_public limit m (phups @ phlater) = Some hr) \<and>
   (fetchTopTraders_public limit pups = Some tr \<longrightarrow>
      fetchTopTraders_public limit (pups @ plater) = Some tr) \<and>
   (fetchActiveWallets_public from to pups = Some ar \<longrightarrow>
      fetchActiveWallets_public from to (pups @ plater) = Some ar)"
proof (intro conjI impI)
  assume "fetchHolders key limit m hups = Some hr"
  then show "fetchHolders key limit m (hups @ hlater) = Some hr"
    by (auto simp: fetchHolders_def holders_loop_extend split: if_splits option.splits sum.splits)
next
  assume "fetchTopTraders key limit ups = Some tr"
  then show "fetchTopTraders key limit (ups @ later) = Some tr"
    by (auto simp: fetchTopTraders_def traders_loop_extend split: if_splits option.splits sum.splits)
next
  assume "fetchActiveWallets key from to ups = Some ar"
  then show "fetchActiveWallets key from to (ups @ later) = Some ar"
    by (auto simp: fetchActiveWallets_def interval_loop_extend split: if_splits option.splits sum.splits)
next
  assume "fetchHolders_public limit m phups = Some hr"
  then show "fetchHolders_public limit m (phups @ phlater) = Some hr"
    by (auto simp: fetchHolders_public_def holders_public_loop_extend split: option.splits sum.splits)
next
  assume "fetchTopTraders_public limit pups = Some tr"
  then show "fetchTopTraders_public limit (pups @ plater) = Some tr"
    by (auto simp: fetchTopTraders_public_def traders_public_loop_extend split: option.splits sum.splits)
next
  assume "fetchActiveWallets_public from to pups = Some ar"
  then show "fetchActiveWallets_public from to (pups @ plater) = Some ar"
    by (auto simp: fetchActiveWallets_public_def interval_public_loop_extend
             split: option.splits sum.splits)
qed

theorem same_pages_same_result_witness:
  "fetchHolders (Some ''key'') (Some 10) (Some 10)
     ([Inr \<lparr>data = [\<lparr>holder_owner = ''A'', uiAmount = 50\<rparr>, \<lparr>holder_owner = ''B'', uiAmount = 5\<rparr>], total = 2\<rparr>]
        @ [Inl NetworkError])
     = Some (Inr [\<lparr>wallet = ''A'', amount = 50\<rparr>]) \<and>
   fetchTopTraders (Some ''key'') (Some 10)
     ([Inr \<lparr>data = [\<lparr>owner = ''A'', blockTime = 100, changeAmount = 2000000000\<rparr>,
                    \<lparr>owner = ''A'', blockTime = 200, changeAmount = 1000000000\<rparr>], total = 2\<rparr>]
        @ [Inl NetworkError])
     = Some (Inr [\<lparr>wallet = ''A'', lastTx = 200, volume = Finite 3\<rparr>]) \<and>
   fetchActiveWallets (Some ''key'') (Some 100) (Some 300)
     ([Inr \<lparr>data = [\<lparr>owner = ''A'', blockTime = 100, changeAmount = 2000000000\<rparr>,
                    \<lparr>owner = ''A'', blockTime = 200, changeAmount = 1000000000\<rparr>], total = 2\<rparr>]
        @ [Inl NetworkError])
     = Some (Inr [\<lparr>wallet = ''A'', lastTx = 200\<rparr>]) \<and>
   fetchHolders_public (Some 10) (Some 10)
     ([Inr [\<lparr>holder_owner = ''A'', uiAmount = 50\<rparr>, \<lparr>holder_owner = ''B'', uiAmount = 5\<rparr>]]
        @ [Inl NetworkError])
     = Some (Inr [\<lparr>wallet = ''A'', amount = 50\<rparr>]) \<and>
   fetchTopTraders_public (Some 10)
     ([Inr [\<lparr>signer = [''A''], pt_blockTime = 100\<rparr>, \<lparr>signer = [''A''], pt_blockTime = 200\<rparr>]]
        @ [Inl NetworkError])
     = Some (Inr [\<lparr>wallet = ''A'', lastTx = 200, volume = Finite 2\<rparr>]) \<and>
   fetchActiveWallets_public (Some 100) (Some 300)
     ([Inr [\<lparr>signer = [''A''], pt_blockTime = 100\<rparr>, \<lparr>signer = [''A''], pt_blockTime = 200\<rparr>]]
        @ [Inl NetworkError])
     = Some (Inr [\<lparr>wallet = ''A'', lastTx = 200\<rparr>])"
proof -
  let ?hups = "[Inr \<lparr>data = [\<lparr>holder_owner = ''A'', uiAmount = 50\<rparr>, \<lparr>holder_owner = ''B'', uiAmount = 5\<rparr>],
                      total = 2\<rparr>]"
  let ?ups = "[Inr \<lparr>data = [\<lparr>owner = ''A'', blockTime = 100, changeAmount = 2000000000\<rparr>,
                   \<lparr>owner = ''A'', blockTime = 200, changeAmount = 1000000000\<rparr>], total = 2\<rparr>]"
  let ?phups = "[Inr [\<lparr>holder_owner = ''A'', uiAmount = 50\<rparr>, \<lparr>holder_owner = ''B'', uiAmount = 5\<rparr>]]"
  let ?pups = "[Inr [\<lparr>signer = [''A''], pt_blockTime = 100\<rparr>, \<lparr>signer = [''A''], pt_blockTime = 200\<rparr>]]"
  have 1: "fetchHolders (Some ''key'') (Some 10) (Some 10) ?hups = Some (Inr [\<lparr>wallet = ''A'', amount = 50\<rparr>])"
    by (simp add: fetchHolders_def api_key_configured_def holders_init_def pageSize_def
          js_lt_def js_ge_def filteredHolders_def holder_rows_def slice0_def)
  have 2: "fetchTopTraders (Some ''key'') (Some 10) ?ups
      = Some (Inr [\<lparr>wallet = ''A'', lastTx = 200, volume = Finite 3\<rparr>])"
    by (simp add: fetchTopTraders_def api_key_configured_def traders_init_def
          maxTransactionsToProcess_def pageSize_def traders_eval slice0_def)
  have 3: "fetchActiveWallets (Some ''key'') (Some 100) (Some 300) ?ups
      = Some (Inr [\<lparr>wallet = ''A'', lastTx = 200\<rparr>])"
    by (simp add: fetchActiveWallets_def api_key_configured_def interval_init_def pageSize_def
          js_lt_def js_le_def js_ge_def note_activity_def active_rows_def)
  have 4: "fetchHolders_public (Some 10) (Some 10) ?phups = Some (Inr [\<lparr>wallet = ''A'', amount = 50\<rparr>])"
    by (simp add: fetchHolders_public_def holders_init_def pageSize_def
          js_lt_def js_ge_def filteredHolders_def holder_rows_def slice0_def)
  have 5: "fetchTopTraders_public (Some 10) ?pups
      = Some (Inr [\<lparr>wallet = ''A'', lastTx = 200, volume = Finite 2\<rparr>])"
    by (simp add: fetchTopTraders_public_def traders_public_init_def 
          maxTransactionsToProcess_public_def pageSize_def traders_eval slice0_def)
  have 6: "fetchActiveWallets_public (Some 100) (Some 300) ?pups
      = Some (Inr [\<lparr>wallet = ''A'', lastTx = 200\<rparr>])"
    by (simp add: fetchActiveWallets_public_def interval_init_def pageSize_def first_signer_def
          js_lt_def js_le_def note_activity_def active_rows_def)
  from same_pages_same_result [where key = "Some ''key''" and limit = "Some 10" and m = "Some 10"
      and hups = ?hups and hr = "Inr [\<lparr>wallet = ''A'', amount = 50\<rparr>]" and hlater = "[Inl NetworkError]"
      and phups = ?phups and phlater = "[Inl NetworkError]"
      and ups = ?ups and tr = "Inr [\<lparr>wallet = ''A'', lastTx = 200, volume = Finite 3\<rparr>]"
      and later = "[Inl NetworkError]"] 1 2 4
  have a: "fetchHolders (Some ''key'') (Some 10) (Some 10) (?hups @ [Inl NetworkError])
        = Some (Inr [\<lparr>wallet = ''A'', amount = 50\<rparr>])"
    and b: "fetchTopTraders (Some ''key'') (Some 10) (?ups @ [Inl NetworkError])
        = Some (Inr [\<lparr>wallet = ''A'', lastTx = 200, volume = Finite 3\<rparr>])"
    and d: "fetchHolders_public (Some 10) (Some 10) (?phups @ [Inl NetworkError])
        = Some (Inr [\<lparr>wallet = ''A'', amount = 50\<rparr>])"
    by blast+
  from same_pages_same_result [where key = "Some ''key''" and limit = "Some 10"
      and ?from = "Some 100" and to = "Some 300"
      and ups = ?ups and ar = "Inr [\<lparr>wallet = ''A'', lastTx = 200\<rparr>]" and later = "[Inl NetworkError]"
      and pups = ?pups and tr = "Inr [\<lparr>wallet = ''A'', lastTx = 200, volume = Finite 2\<rparr>]"
      and plater = "[Inl NetworkError]"] 3 5 6
  have c: "fetchActiveWallets (Some ''key'') (Some 100) (Some 300) (?ups @ [Inl NetworkError])
        = Some (Inr [\<lparr>wallet = ''A'', lastTx = 200\<rparr>])"
    and e: "fetchTopTraders_public (Some 10) (?pups @ [Inl NetworkError])
        = Some (Inr [\<lparr>wallet = ''A'', lastTx = 200, volume = Finite 2\<rparr>])"
    and f: "fetchActiveWallets_public (Some 100) (Some 300) (?pups @ [Inl NetworkError])
        = Some (Inr [\<lparr>wallet = ''A'', lastTx = 200\<rparr>])"
    by blast+
  from a b c d e f show ?thesis
    by blast
qed

section \<open>Status codes of the handlers\<close>

text \<open>
  Claim C7. A request without a token (absent, empty, or not a string) is answered with
  400 and an error message by all three handlers, and so is an interval request without
  \<open>from\<close> or \<open>to\<close>; the answer does not depend on the upstream, so no upstream request
  is made. Otherwise an error thrown by the aggregation (the missing API key, a failed
  request) is answered with 500 and the message of the error.
\<close>

theorem handler_status_codes:
  "(\<not> (truthy (q_token q) \<and> is_string (q_token q)) \<longrightarrow>
      handler_holders parseInt parseFloat key q hups
        = Some \<lparr>status = 400, body = ErrorBody ''Token address is required.''\<rparr> \<and>
      handler_traders parseInt key q ups
        = Some \<lparr>status = 400, body = ErrorBody ''Token address is required.''\<rparr> \<and>
      handler_interval parseInt key q ups
        = Some \<lparr>status = 400, body = ErrorBody ''Token address is required.''\<rparr>) \<and>
   (truthy (q_token q) \<and> is_string (q_token q) \<and> (\<not> truthy (q_from q) \<or> \<not> truthy (q_to q)) \<longrightarrow>
      handler_interval parseInt key q ups
        = Some \<lparr>status = 400, body = ErrorBody ''A time range (from, to) is required.''\<rparr>) \<and>
   (truthy (q_token q) \<and> is_string (q_token q) \<and>
    fetchHolders key (parseInt (to_string (with_default (q_limit q) ''100'')))
      (parseFloat (to_string (with_default (q_minAmount q) ''0''))) hups = Some (Inl (Error msg)) \<longrightarrow>
      handler_holders parseInt parseFloat key q hups = Some \<lparr>status = 500, body = ErrorBody msg\<rparr>) \<and>
   (truthy (q_token q) \<and> is_string (q_token q) \<and>
    fetchTopTraders key (parseInt (to_string (with_default (q_limit q) ''50''))) ups
      = Some (Inl (Error msg)) \<longrightarrow>
      handler_traders parseInt key q ups = Some \<lparr>status = 500, body = ErrorBody msg\<rparr>) \<and>
   (truthy (q_token q) \<and> is_string (q_token q) \<and> truthy (q_from q) \<and> truthy (q_to q) \<and>
    fetchActiveWallets key (parseInt (to_string (q_from q))) (parseInt (to_string (q_to q))) ups
      = Some (Inl (Error msg)) \<longrightarrow>
      handler_interval parseInt key q ups = Some \<lparr>status = 500, body = ErrorBody msg\<rparr>) \<and>
   (truthy (q_token q) \<and> is_string (q_token q) \<and> \<not> api_key_configured key \<longrightarrow>
      handler_holders parseInt parseFloat key q hups
        = Some \<lparr>status = 500, body = ErrorBody ''Solscan API key is not configured.''\<rparr> \<and>
      handler_traders parseInt key q ups
        = Some \<lparr>status = 500, body = ErrorBody ''Solscan API key is not configured.''\<rparr> \<and>
      (truthy (q_from q) \<and> truthy (q_to q) \<longrightarrow>
         handler_interval parseInt key q ups
           = Some \<lparr>status = 500, body = ErrorBody ''Solscan API key is not configured.''\<rparr>))"
  by (simp add: handler_holders_def handler_traders_def handler_interval_def Let_def respond_def
        fetchHolders_def fetchTopTraders_def fetchActiveWallets_def)

theorem handler_status_codes_witness:
  "handler_holders parseInt_of_examples (\<lambda>s. Some 0) (Some ''key'')
     \<lparr>q_token = Undefined, q_limit = Undefined, q_minAmount = Undefined, q_from = Undefined, q_to = Undefined\<rparr> []
     = Some \<lparr>status = 400, body = ErrorBody ''Token address is required.''\<rparr> \<and>
   handler_traders parseInt_of_examples (Some ''key'')
     \<lparr>q_token = Undefined, q_limit = Undefined, q_minAmount = Undefined, q_from = Undefined, q_to = Undefined\<rparr> []
     = Some \<lparr>status = 400, body = ErrorBody ''Token address is required.''\<rparr> \<and>
   handler_interval parseInt_of_examples (Some ''key'')
     \<lparr>q_token = Undefined, q_limit = Undefined, q_minAmount = Undefined, q_from = Undefined, q_to = Undefined\<rparr> []
     = Some \<lparr>status = 400, body = ErrorBody ''Token address is required.''\<rparr> \<and>
   handler_interval parseInt_of_examples (Some ''key'')
     \<lparr>q_token = Str ''T'', q_limit = Undefined, q_minAmount = Undefined, q_from = Str ''100'', q_to = Undefined\<rparr> []
     = Some \<lparr>status = 400, body = ErrorBody ''A time range (from, to) is required.''\<rparr> \<and>
   handler_holders parseInt_of_examples (\<lambda>s. Some 0) None
     \<lparr>q_token = Str ''T'', q_limit = Undefined, q_minAmount = Undefined, q_from = Str ''100'', q_to = Str ''150''\<rparr> []
     = Some \<lparr>status = 500, body = ErrorBody ''Solscan API key is not configured.''\<rparr> \<and>
   handler_traders parseInt_of_examples None
     \<lparr>q_token = Str ''T'', q_limit = Undefined, q_minAmount = Undefined, q_from = Str ''100'', q_to = Str ''150''\<rparr>
     [Inl NetworkError]
     = Some \<lparr>status = 500, body = ErrorBody ''Solscan API key is not configured.''\<rparr> \<and>
   handler_traders parseInt_of_examples (Some ''key'')
     \<lparr>q_token = Str ''T'', q_limit = Undefined, q_minAmount = Undefined, q_from = Str ''100'', q_to = Str ''150''\<rparr>
     [Inl NetworkError]
     = Some \<lparr>status = 500, body = ErrorBody ''Failed to fetch transfer data from Solscan.''\<rparr> \<and>
   handler_interval parseInt_of_examples None
     \<lparr>q_token = Str ''T'', q_limit = Undefined, q_minAmount = Undefined, q_from = Str ''100'', q_to = Str ''150''\<rparr> []
     = Some \<lparr>status = 500, body = ErrorBody ''Solscan API key is not configured.''\<rparr> \<and>
   handler_holders parseInt_of_examples (\<lambda>s. Some 0) (Some ''key'')
     \<lparr>q_token = Str ''T'', q_limit = Undefined, q_minAmount = Undefined, q_from = Str ''100'', q_to = Str ''150''\<rparr>
     [Inl (BadStatus 500)]
     = Some \<lparr>status = 500, body = ErrorBody ''Failed to fetch holder data from Solscan.''\<rparr> \<and>
   handler_interval parseInt_of_examples (Some ''key'')
     \<lparr>q_token = Str ''T'', q_limit = Undefined, q_minAmount = Undefined, q_from = Str ''100'', q_to = Str ''150''\<rparr>
     [Inl (BadStatus 500)]
     = Some \<lparr>status = 500, body = ErrorBody ''Failed to fetch transfer data from Solscan.''\<rparr>"
proof -
  let ?q0 = "\<lparr>q_token = Undefined, q_limit = Undefined, q_minAmount = Undefined,
               q_from = Undefined, q_to = Undefined\<rparr>"
  let ?q1 = "\<lparr>q_token = Str ''T'', q_limit = Undefined, q_minAmount = Undefined,
               q_from = Str ''100'', q_to = Undefined\<rparr>"
  let ?q2 = "\<lparr>q_token = Str ''T'', q_limit = Undefined, q_minAmount = Undefined,
               q_from = Str ''100'', q_to = Str ''150''\<rparr>"
  have t0: "\<not> (truthy (q_token ?q0) \<and> is_string (q_token ?q0))"
    by (simp add: truthy_def)
  have t1: "truthy (q_token ?q1) \<and> is_string (q_token ?q1) \<and> (\<not> truthy (q_from ?q1) \<or> \<not> truthy (q_to ?q1))"
    by (simp add: truthy_def is_string_def)
  have t2: "truthy (q_token ?q2) \<and> is_string (q_token ?q2)" "truthy (q_from ?q2) \<and> truthy (q_to ?q2)"
    by (simp_all add: truthy_def is_string_def)
  have k: "\<not> api_key_configured None"
    by (simp add: api_key_configured_def)
  have f: "fetchTopTraders (Some ''key'') (parseInt_of_examples (to_string (with_default (q_limit ?q2) ''50'')))
      [Inl NetworkError] = Some (Inl (Error ''Failed to fetch transfer data from Solscan.''))"
    by (simp add: fetchTopTraders_def api_key_configured_def traders_init_def maxTransactionsToProcess_def)
  from handler_status_codes [where q = ?q0 and parseInt = parseInt_of_examples and parseFloat = "\<lambda>s. Some 0" and key = "Some ''key''"
      and hups = "[]" and ups = "[]"] t0
  have a: "handler_holders parseInt_of_examples (\<lambda>s. Some 0) (Some ''key'') ?q0 []
        = Some \<lparr>status = 400, body = ErrorBody ''Token address is required.''\<rparr>"
    and b: "handler_traders parseInt_of_examples (Some ''key'') ?q0 []
        = Some \<lparr>status = 400, body = ErrorBody ''Token address is required.''\<rparr>"
    and c: "handler_interval parseInt_of_examples (Some ''key'') ?q0 []
        = Some \<lparr>status = 400, body = ErrorBody ''Token address is required.''\<rparr>"
    by blast+
  from handler_status_codes [where q = ?q1 and parseInt = parseInt_of_examples and key = "Some ''key''" and ups = "[]"] t1
  have d: "handler_interval parseInt_of_examples (Some ''key'') ?q1 []
        = Some \<lparr>status = 400, body = ErrorBody ''A time range (from, to) is required.''\<rparr>"
    by blast
  from handler_status_codes [where q = ?q2 and parseInt = parseInt_of_examples and parseFloat = "\<lambda>s. Some 0" and key = None
      and hups = "[]" and ups = "[]"] t2 k
  have e: "handler_holders parseInt_of_examples (\<lambda>s. Some 0) None ?q2 []
        = Some \<lparr>status = 500, body = ErrorBody ''Solscan API key is not configured.''\<rparr>"
    and g: "handler_interval parseInt_of_examples None ?q2 []
        = Some \<lparr>status = 500, body = ErrorBody ''Solscan API key is not configured.''\<rparr>"
    by blast+
  from handler_status_codes [where q = ?q2 and parseInt = parseInt_of_examples and key = None and ups = "[Inl NetworkError]"] t2 k
  have h: "handler_traders parseInt_of_examples None ?q2 [Inl NetworkError]
        = Some \<lparr>status = 500, body = ErrorBody ''Solscan API key is not configured.''\<rparr>"
    by blast
  from handler_status_codes [where q = ?q2 and parseInt = parseInt_of_examples and key = "Some ''key''" and ups = "[Inl NetworkError]"
      and msg = "''Failed to fetch transfer data from Solscan.''"] t2 f
  have i: "handler_traders parseInt_of_examples (Some ''key'') ?q2 [Inl NetworkError]
        = Some \<lparr>status = 500, body = ErrorBody ''Failed to fetch transfer data from Solscan.''\<rparr>"
    by blast
  have fh: "fetchHolders (Some ''key'') (parseInt_of_examples (to_string (with_default (q_limit ?q2) ''100'')))
      ((\<lambda>s. Some 0) (to_string (with_default (q_minAmount ?q2) ''0''))) [Inl (BadStatus 500)]
      = Some (Inl (Error ''Failed to fetch holder data from Solscan.''))"
    by (simp add: fetchHolders_def api_key_configured_def holders_init_def js_lt_def
          with_default_def to_string_def parseInt_of_examples_def)
  have fi: "fetchActiveWallets (Some ''key'') (parseInt_of_examples (to_string (q_from ?q2)))
      (parseInt_of_examples (to_string (q_to ?q2))) [Inl (BadStatus 500)]
      = Some (Inl (Error ''Failed to fetch transfer data from Solscan.''))"
    by (simp add: fetchActiveWallets_def api_key_configured_def interval_init_def)
  from handler_status_codes [where q = ?q2 and parseInt = parseInt_of_examples and parseFloat = "\<lambda>s. Some 0" and key = "Some ''key''"
      and hups = "[Inl (BadStatus 500)]" and msg = "''Failed to fetch holder data from Solscan.''"] t2 fh
  have j: "handler_holders parseInt_of_examples (\<lambda>s. Some 0) (Some ''key'') ?q2 [Inl (BadStatus 500)]
        = Some \<lparr>status = 500, body = ErrorBody ''Failed to fetch holder data from Solscan.''\<rparr>"
    by blast
  from handler_status_codes [where q = ?q2 and parseInt = parseInt_of_examples and key = "Some ''key''"
      and ups = "[Inl (BadStatus 500)]" and msg = "''Failed to fetch transfer data from Solscan.''"] t2 fi
  have l: "handler_interval parseInt_of_examples (Some ''key'') ?q2 [Inl (BadStatus 500)]
        = Some \<lparr>status = 500, body = ErrorBody ''Failed to fetch transfer data from Solscan.''\<rparr>"
    by blast
  from a b c d e h i g j l show ?thesis
    by blast
qed

section \<open>Aggregations with a parameter that is not a number\<close>



















section \<open>Numeric parameters that do not parse\<close>




section \<open>Upstreams on which the runs return\<close>

text \<open>
  Every loop returns once the upstream has failed or has delivered an empty page: a run
  has a result on every upstream that holds such a response.
\<close>

lemma traders_loop_closes:
  "\<exists>response \<in> set ups. closes response \<Longrightarrow> traders_loop st ups \<noteq> None"
proof (induction ups arbitrary: st)
  case Nil
  then show ?case by simp
next
  case (Cons response ups)
  show ?case
  proof (cases "closes response")
    case True
    then show ?thesis
      by (cases response) (simp_all add: closes_def)
  next
    case False
    with Cons.prems have "\<exists>response \<in> set ups. closes response"
      by simp
    with Cons.IH have "\<And>st. traders_loop st ups \<noteq> None"
      by blast
    with False show ?thesis
      by (cases response) (simp_all add: closes_def Let_def)
  qed
qed

lemma traders_public_loop_closes:
  "\<exists>response \<in> set ups. closes_public response \<Longrightarrow> traders_public_loop st ups \<noteq> None"
proof (induction ups arbitrary: st)
  case Nil
  then show ?case by simp
next
  case (Cons response ups)
  show ?case
  proof (cases "closes_public response")
    case True
    then show ?thesis
      by (cases response) (simp_all add: closes_public_def)
  next
    case False
    with Cons.prems have "\<exists>response \<in> set ups. closes_public response"
      by simp
    with Cons.IH have "\<And>st. traders_public_loop st ups \<noteq> None"
      by blast
    with False show ?thesis
      by (cases response) (simp_all add: closes_public_def Let_def)
  qed
qed

lemma interval_loop_closes:
  "\<exists>response \<in> set ups. closes response \<Longrightarrow> interval_loop from to st ups \<noteq> None"
proof (induction ups arbitrary: st)
  case Nil
  then show ?case by simp
next
  case (Cons response ups)
  show ?case
  proof (cases "closes response")
    case True
    then show ?thesis
      by (cases response) (simp_all add: closes_def)
  next
    case False
    with Cons.prems have "\<exists>response \<in> set ups. closes response"
      by simp
    with Cons.IH have "\<And>st. interval_loop from to st ups \<noteq> None"
      by blast
    with False show ?thesis
      by (cases response) (simp_all add: closes_def Let_def)
  qed
qed

lemma interval_public_loop_closes:
  "\<exists>response \<in> set ups. closes_public response \<Longrightarrow> interval_public_loop from to st ups \<noteq> None"
proof (induction ups arbitrary: st)
  case Nil
  then show ?case by simp
next
  case (Cons response ups)
  show ?case
  proof (cases "closes_public response")
    case True
    then show ?thesis
      by (cases response) (simp_all add: closes_public_def)
  next
    case False
    with Cons.prems have "\<exists>response \<in> set ups. closes_public response"
      by simp
    with Cons.IH have "\<And>st. interval_public_loop from to st ups \<noteq> None"
      by blast
    with False show ?thesis
      by (cases response) (simp_all add: closes_public_def Let_def)
  qed
qed

lemma holders_loop_closes:
  "\<exists>response \<in> set ups. closes response \<Longrightarrow> holders_loop limit m st ups \<noteq> None"
proof (induction ups arbitrary: st)
  case Nil
  then show ?case by simp
next
  case (Cons response ups)
  show ?case
  proof (cases "closes response")
    case True
    then show ?thesis
      by (cases response) (simp_all add: closes_def)
  next
    case False
    with Cons.prems have "\<exists>response \<in> set ups. closes response"
      by simp
    with Cons.IH have "\<And>st. holders_loop limit m st ups \<noteq> None"
      by blast
    with False show ?thesis
      by (cases response) (simp_all add: closes_def Let_def)
  qed
qed

lemma holders_public_loop_closes:
  "\<exists>response \<in> set ups. closes_public response \<Longrightarrow> holders_public_loop limit m st ups \<noteq> None"
proof (induction ups arbitrary: st)
  case Nil
  then show ?case by simp
next
  case (Cons response ups)
  show ?case
  proof (cases "closes_public response")
    case True
    then show ?thesis
      by (cases response) (simp_all add: closes_public_def)
  next
    case False
    with Cons.prems have "\<exists>response \<in> set ups. closes_public response"
      by simp
    with Cons.IH have "\<And>st. holders_public_loop limit m st ups \<noteq> None"
      by blast
    with False show ?thesis
      by (cases response) (simp_all add: closes_public_def Let_def)
  qed
qed

end
